theory Spec2Isabelle
  imports Complex_Main "HOL-Library.AList"
begin

section \<open>Python values used by the pipeline\<close>

text \<open>
  The exceptions that the modelled functions can raise. Every \<^verbatim>\<open>try/except Exception\<close>
  of the source turns any of them into a result dictionary with status \<^verbatim>\<open>"error"\<close>;
  there is no exception class of the repository's own.
\<close>

datatype py_error = ValueError | IndexError | RuntimeError

subsection \<open>Calendar dates (\<^verbatim>\<open>datetime\<close>)\<close>

text \<open>
  \<^verbatim>\<open>datetime.strptime(d, "%Y-%m-%d")\<close> yields a date at midnight; two of them are compared
  by calendar order and subtracted to a \<^verbatim>\<open>timedelta\<close> whose \<^verbatim>\<open>.days\<close> is the difference of
  the proleptic Gregorian ordinals. The ordinal is computed as CPython's \<^verbatim>\<open>_ymd2ord\<close> does.
\<close>

record date =
  year :: int
  month :: int
  day :: int

definition is_leap :: "int \<Rightarrow> bool" where
  "is_leap y \<longleftrightarrow> y mod 4 = 0 \<and> (y mod 100 \<noteq> 0 \<or> y mod 400 = 0)"

definition days_before_year :: "int \<Rightarrow> int" where
  "days_before_year y = (let p = y - 1 in p * 365 + p div 4 - p div 100 + p div 400)"

definition days_in_month :: "int \<Rightarrow> int \<Rightarrow> int" where
  "days_in_month y m =
     (if m = 2 then (if is_leap y then 29 else 28)
      else if m = 4 \<or> m = 6 \<or> m = 9 \<or> m = 11 then 30 else 31)"

definition days_before_month :: "int \<Rightarrow> int \<Rightarrow> int" where
  "days_before_month y m = (\<Sum>k \<leftarrow> [1..<nat m]. days_in_month y (int k))"

definition toordinal :: "date \<Rightarrow> int" where
  "toordinal d = days_before_year (year d) + days_before_month (year d) (month d) + day d"

definition days_between :: "date \<Rightarrow> date \<Rightarrow> int" where
  \<comment> \<open>\<^verbatim>\<open>(later - earlier).days\<close>\<close>
  "days_between later earlier = toordinal later - toordinal earlier"

definition is_digit :: "char \<Rightarrow> bool" where
  "is_digit c \<longleftrightarrow> 48 \<le> (of_char c :: nat) \<and> (of_char c :: nat) \<le> 57"

definition digits_value :: "string \<Rightarrow> int" where
  "digits_value s = foldl (\<lambda>acc c. 10 * acc + (int (of_char c) - 48)) 0 s"

fun split_dash :: "string \<Rightarrow> string list" where
  "split_dash [] = [[]]"
| "split_dash (c # cs) =
     (if c = CHR ''-'' then [] # split_dash cs
      else (case split_dash cs of [] \<Rightarrow> [[c]] | w # ws \<Rightarrow> (c # w) # ws))"

definition short_number :: "string \<Rightarrow> bool" where
  \<comment> \<open>one or two digits, as the directives \<^verbatim>\<open>%m\<close> and \<^verbatim>\<open>%d\<close> accept\<close>
  "short_number s \<longleftrightarrow> (length s = 1 \<or> length s = 2) \<and> list_all is_digit s"

definition strptime :: "string \<Rightarrow> py_error + date" where
  \<comment> \<open>the format \<^verbatim>\<open>"%Y-%m-%d"\<close>: four digits, then month and day; anything else is a ValueError\<close>
  "strptime s =
     (case split_dash s of
        [y, m, d] \<Rightarrow>
          if length y = 4 \<and> list_all is_digit y \<and> short_number m \<and> short_number d
             \<and> 1 \<le> digits_value y
             \<and> 1 \<le> digits_value m \<and> digits_value m \<le> 12
             \<and> 1 \<le> digits_value d \<and> digits_value d \<le> days_in_month (digits_value y) (digits_value m)
          then Inr \<lparr>year = digits_value y, month = digits_value m, day = digits_value d\<rparr>
          else Inl ValueError
      | _ \<Rightarrow> Inl ValueError)"

fun parse_all :: "string list \<Rightarrow> py_error + date list" where
  "parse_all [] = Inr []"
| "parse_all (s # ss) =
     (case strptime s of
        Inl e \<Rightarrow> Inl e
      | Inr d \<Rightarrow> (case parse_all ss of Inl e \<Rightarrow> Inl e | Inr ds \<Rightarrow> Inr (d # ds)))"


section \<open>The SBAS network (\<^verbatim>\<open>sbas_inversion.py\<close>, class \<^verbatim>\<open>SBASNetwork\<close>)\<close>

text \<open>
  A pair dictionary of \<^verbatim>\<open>build_network\<close>. The two formatted date strings of the source
  (\<^verbatim>\<open>strftime\<close>) are kept as the dates they print. The dictionary \<^verbatim>\<open>self.baselines\<close> is
  an association list from index pairs to the two baselines.
\<close>

record pair =
  master_idx :: nat
  slave_idx :: nat
  master_date :: date
  slave_date :: date
  temporal_baseline :: int
  perpendicular_baseline :: real

record sbas_network =
  dates :: "date list"
  n_dates :: nat
  baseline_threshold :: real
  pairs :: "pair list"
  baselines :: "((nat \<times> nat) \<times> (int \<times> real)) list"

definition SBASNetwork_init :: "string list \<Rightarrow> real \<Rightarrow> py_error + sbas_network" where
  "SBASNetwork_init ds thr =
     (case parse_all ds of
        Inl e \<Rightarrow> Inl e
      | Inr parsed \<Rightarrow>
          Inr \<lparr>dates = sort_key toordinal parsed, n_dates = length parsed,
               baseline_threshold = thr, pairs = [], baselines = []\<rparr>)"

subsection \<open>Connectivity check\<close>

record connectivity =
  is_connected :: bool
  n_connected :: nat
  n_disconnected :: nat

definition set_entry :: "'a list list \<Rightarrow> nat \<Rightarrow> nat \<Rightarrow> 'a \<Rightarrow> py_error + 'a list list" where
  \<comment> \<open>\<^verbatim>\<open>a[i, j] = v\<close> on a two-dimensional array; an index past the shape raises\<close>
  "set_entry a i j v =
     (if i < length a \<and> j < length (a ! i) then Inr (a[i := (a ! i)[j := v]])
      else Inl IndexError)"

fun mark_edges :: "pair list \<Rightarrow> bool list list \<Rightarrow> py_error + bool list list" where
  "mark_edges [] adj = Inr adj"
| "mark_edges (p # ps) adj =
     (case set_entry adj (master_idx p) (slave_idx p) True of
        Inl e \<Rightarrow> Inl e
      | Inr adj1 \<Rightarrow>
          (case set_entry adj1 (slave_idx p) (master_idx p) True of
             Inl e \<Rightarrow> Inl e
           | Inr adj2 \<Rightarrow> mark_edges ps adj2))"

definition visit_neighbor ::
  "bool list list \<Rightarrow> nat \<Rightarrow> nat \<Rightarrow> bool list \<times> nat list \<Rightarrow> bool list \<times> nat list" where
  "visit_neighbor adj node neighbor st =
     (if adj ! node ! neighbor \<and> \<not> fst st ! neighbor
      then ((fst st)[neighbor := True], snd st @ [neighbor])
      else st)"

lemma count_list_update_True:
  "i < length v \<Longrightarrow> \<not> v ! i \<Longrightarrow> Suc (count_list (v[i := True]) False) = count_list v False"
proof (induction v arbitrary: i)
  case Nil
  then show ?case by simp
next
  case (Cons b v)
  then show ?case by (cases i) auto
qed

lemma visit_neighbor_measure:
  assumes "nb < length (fst st)"
  shows "length (fst (visit_neighbor adj node nb st)) = length (fst st)
       \<and> count_list (fst (visit_neighbor adj node nb st)) False + length (snd (visit_neighbor adj node nb st))
         = count_list (fst st) False + length (snd st)"
  using assms count_list_update_True [of nb "fst st"]
  by (auto simp: visit_neighbor_def)

lemma fold_visit_neighbor_measure:
  assumes "\<forall>nb \<in> set nbs. nb < length (fst st)"
  shows "length (fst (fold (visit_neighbor adj node) nbs st)) = length (fst st)
       \<and> count_list (fst (fold (visit_neighbor adj node) nbs st)) False
           + length (snd (fold (visit_neighbor adj node) nbs st))
         = count_list (fst st) False + length (snd st)"
  using assms
proof (induction nbs arbitrary: st)
  case Nil
  then show ?case by simp
next
  case (Cons nb nbs)
  from Cons.prems have nb: "nb < length (fst st)" by simp
  note step = visit_neighbor_measure [OF nb, of adj node]
  from Cons.prems step have "\<forall>x \<in> set nbs. x < length (fst (visit_neighbor adj node nb st))"
    by simp
  from Cons.IH [OF this] step show ?case by simp
qed

text \<open>
  The breadth-first loop \<^verbatim>\<open>while queue: node = queue.pop(0); for neighbor in range(n): ...\<close>.
  The array \<^verbatim>\<open>visited\<close> is created with \<^verbatim>\<open>n_dates\<close> entries and never resized, so
  \<^verbatim>\<open>range(self.n_dates)\<close> is the range of its indices.
\<close>

function bfs :: "bool list list \<Rightarrow> bool list \<Rightarrow> nat list \<Rightarrow> bool list" where
  "bfs adj visited [] = visited"
| "bfs adj visited (node # queue) =
     bfs adj (fst (fold (visit_neighbor adj node) [0..<length visited] (visited, queue)))
             (snd (fold (visit_neighbor adj node) [0..<length visited] (visited, queue)))"
  by pat_completeness auto
termination
proof (relation "measure (\<lambda>p. count_list (fst (snd p)) False + length (snd (snd p)))")
  show "wf (measure (\<lambda>p. count_list (fst (snd p)) False + length (snd (snd p))))"
    by simp
next
  fix adj :: "bool list list" and visited :: "bool list" and node :: nat and queue :: "nat list"
  have "\<forall>nb \<in> set [0..<length visited]. nb < length (fst (visited, queue))" by simp
  from fold_visit_neighbor_measure [OF this, of adj node]
  show "((adj, fst (fold (visit_neighbor adj node) [0..<length visited] (visited, queue)),
               snd (fold (visit_neighbor adj node) [0..<length visited] (visited, queue))),
         (adj, visited, node # queue))
        \<in> measure (\<lambda>p. count_list (fst (snd p)) False + length (snd (snd p)))"
    by simp
qed

definition check_connectivity :: "sbas_network \<Rightarrow> py_error + connectivity" where
  "check_connectivity net =
     (let n = n_dates net in
      case mark_edges (pairs net) (replicate n (replicate n False)) of
        Inl e \<Rightarrow> Inl e
      | Inr adj \<Rightarrow>
          if n = 0 then Inl IndexError
          else
            let visited = bfs adj ((replicate n False)[0 := True]) [0] in
            Inr \<lparr>is_connected = list_all (\<lambda>b. b) visited,
                 n_connected = count_list visited True,
                 n_disconnected = count_list visited False\<rparr>)"

subsection \<open>Building the network\<close>

text \<open>
  The source draws the perpendicular baseline of each candidate pair from
  \<^verbatim>\<open>np.random.uniform(0, max_perpendicular_baseline)\<close>. The draw is the parameter \<open>perp\<close>
  here (the baseline source, by master and slave index); the two threshold tests are
  the code's.
\<close>

definition consider_pair ::
  "date list \<Rightarrow> int \<Rightarrow> real \<Rightarrow> (nat \<Rightarrow> nat \<Rightarrow> real) \<Rightarrow> nat \<Rightarrow> nat
     \<Rightarrow> pair list \<times> ((nat \<times> nat) \<times> (int \<times> real)) list \<Rightarrow> pair list \<times> ((nat \<times> nat) \<times> (int \<times> real)) list" where
  "consider_pair ds max_temporal_baseline max_perpendicular_baseline perp i j st =
     (let tb = days_between (ds ! j) (ds ! i) in
      if tb > max_temporal_baseline then st
      else
        let perp_baseline = perp i j in
        if perp_baseline > max_perpendicular_baseline then st
        else (fst st @ [\<lparr>master_idx = i, slave_idx = j,
                         master_date = ds ! i, slave_date = ds ! j,
                         temporal_baseline = tb, perpendicular_baseline = perp_baseline\<rparr>],
              AList.update (i, j) (tb, perp_baseline) (snd st)))"

definition pair_loop ::
  "date list \<Rightarrow> nat \<Rightarrow> int \<Rightarrow> real \<Rightarrow> (nat \<Rightarrow> nat \<Rightarrow> real)
     \<Rightarrow> pair list \<times> ((nat \<times> nat) \<times> (int \<times> real)) list \<Rightarrow> pair list \<times> ((nat \<times> nat) \<times> (int \<times> real)) list" where
  "pair_loop ds n max_t max_p perp st =
     fold (\<lambda>i. fold (consider_pair ds max_t max_p perp i) [Suc i..<n]) [0..<n] st"

record network_info =
  info_n_dates :: nat
  info_n_pairs :: nat
  info_pairs :: "pair list"
  info_connectivity :: connectivity

definition build_network ::
  "sbas_network \<Rightarrow> int \<Rightarrow> real \<Rightarrow> (nat \<Rightarrow> nat \<Rightarrow> real) \<Rightarrow> sbas_network \<times> (py_error + network_info)" where
  \<comment> \<open>the object after the call, and the returned dictionary (\<open>Inl\<close>: status \<^verbatim>\<open>"error"\<close>)\<close>
  "build_network net max_temporal_baseline max_perpendicular_baseline perp =
     (let st = pair_loop (dates net) (n_dates net) max_temporal_baseline
                 max_perpendicular_baseline perp ([], baselines net);
          net' = net\<lparr>pairs := fst st, baselines := snd st\<rparr>
      in (net',
          case check_connectivity net' of
            Inl e \<Rightarrow> Inl e
          | Inr c \<Rightarrow> Inr \<lparr>info_n_dates = n_dates net', info_n_pairs = length (pairs net'),
                         info_pairs = pairs net', info_connectivity = c\<rparr>))"

subsection \<open>The design matrix\<close>

text \<open>
  \<^verbatim>\<open>np.zeros((n_pairs, n_dates - 1))\<close> raises a ValueError for a negative dimension, and
  \<^verbatim>\<open>A[k, m] = ...\<close> an IndexError for a column past the shape. The entries are whole
  numbers of days, stored in a float array; they are integers here.
\<close>

record matrix =
  n_rows :: nat
  n_cols :: nat
  entries :: "int list list"

fun fill_row :: "date list \<Rightarrow> nat list \<Rightarrow> int list \<Rightarrow> py_error + int list" where
  "fill_row ds [] row = Inr row"
| "fill_row ds (m # ms) row =
     (if m < length row \<and> Suc m < length ds
      then fill_row ds ms (row[m := days_between (ds ! Suc m) (ds ! m)])
      else Inl IndexError)"

fun fill_rows :: "date list \<Rightarrow> nat \<Rightarrow> pair list \<Rightarrow> py_error + int list list" where
  "fill_rows ds n_unknowns [] = Inr []"
| "fill_rows ds n_unknowns (p # ps) =
     (case fill_row ds [master_idx p..<slave_idx p] (replicate n_unknowns 0) of
        Inl e \<Rightarrow> Inl e
      | Inr row \<Rightarrow>
          (case fill_rows ds n_unknowns ps of
             Inl e \<Rightarrow> Inl e
           | Inr rows \<Rightarrow> Inr (row # rows)))"

definition get_design_matrix :: "sbas_network \<Rightarrow> py_error + matrix" where
  "get_design_matrix net =
     (if n_dates net = 0 then Inl ValueError
      else
        case fill_rows (dates net) (n_dates net - 1) (pairs net) of
          Inl e \<Rightarrow> Inl e
        | Inr rows \<Rightarrow> Inr \<lparr>n_rows = length (pairs net), n_cols = n_dates net - 1, entries = rows\<rparr>)"


subsection \<open>Well-formed pairs\<close>

text \<open>
  What every pair dictionary written by the double loop satisfies: master before slave,
  slave inside the date list, and the stored temporal baseline is the day difference of
  its two dates.
\<close>

definition pair_ok :: "date list \<Rightarrow> nat \<Rightarrow> pair \<Rightarrow> bool" where
  "pair_ok ds n p \<longleftrightarrow>
     master_idx p < slave_idx p \<and> slave_idx p < n
     \<and> temporal_baseline p = days_between (ds ! slave_idx p) (ds ! master_idx p)"

section \<open>Floating-point rasters\<close>

text \<open>
  Floating-point samples are modelled as exact reals, with the special values that the
  code tests for or can produce by a division by zero. Rounding is not modelled.
\<close>

datatype fval = Fin real | NaN | PosInf | NegInf

definition fdiv :: "real \<Rightarrow> real \<Rightarrow> fval" where
  \<comment> \<open>division of two finite floats: \<^verbatim>\<open>x / 0\<close> is not an error in numpy\<close>
  "fdiv x d =
     (if d \<noteq> 0 then Fin (x / d)
      else if x = 0 then NaN else if 0 < x then PosInf else NegInf)"

definition ftimes :: "fval \<Rightarrow> real \<Rightarrow> fval" where
  "ftimes v c =
     (case v of
        Fin x \<Rightarrow> Fin (x * c)
      | NaN \<Rightarrow> NaN
      | PosInf \<Rightarrow> (if c = 0 then NaN else if 0 < c then PosInf else NegInf)
      | NegInf \<Rightarrow> (if c = 0 then NaN else if 0 < c then NegInf else PosInf))"

fun collect :: "(py_error + 'a) list \<Rightarrow> py_error + 'a list" where
  \<comment> \<open>a loop that stops at the first exception\<close>
  "collect [] = Inr []"
| "collect (x # xs) =
     (case x of
        Inl e \<Rightarrow> Inl e
      | Inr y \<Rightarrow> (case collect xs of Inl e \<Rightarrow> Inl e | Inr ys \<Rightarrow> Inr (y # ys)))"

section \<open>SBAS inversion (\<^verbatim>\<open>sbas_inversion.py\<close>, class \<^verbatim>\<open>SBASInversion\<close>)\<close>

text \<open>
  A stack \<^verbatim>\<open>(n_pairs, height, width)\<close> of unwrapped phases: its shape and its samples,
  \<open>None\<close> for not-a-number. The optional coherence stack has the same shape and finite
  samples. \<^verbatim>\<open>np.linalg.lstsq\<close> is the parameter \<open>lstsq\<close>: \<open>None\<close> when it raises
  \<^verbatim>\<open>LinAlgError\<close>, else the solution vector.
\<close>

record stack =
  layers :: nat
  rows :: nat
  cols :: nat
  sample :: "nat \<Rightarrow> nat \<Rightarrow> nat \<Rightarrow> real option"

record pixel =
  px_velocity :: fval
  px_displacement :: "fval list"
  px_residual :: fval

record inversion_result =
  velocity :: "fval list list"
  displacement_ts :: "fval list list list"
  residual :: "fval list list"

definition select :: "bool list \<Rightarrow> 'a list \<Rightarrow> 'a list" where
  \<comment> \<open>boolean-mask indexing \<^verbatim>\<open>xs[keep]\<close>\<close>
  "select keep xs = map snd (filter fst (zip keep xs))"

definition mat_vec :: "real list list \<Rightarrow> real list \<Rightarrow> real list" where
  "mat_vec M v = map (\<lambda>row. \<Sum>(a, x) \<leftarrow> zip row v. a * x) M"

definition eye :: "nat \<Rightarrow> real list list" where
  "eye n = map (\<lambda>r. map (\<lambda>c. if r = c then 1 else 0) [0..<n]) [0..<n]"

fun cumulative :: "real \<Rightarrow> real list \<Rightarrow> real list" where
  "cumulative acc [] = []"
| "cumulative acc (x # xs) = (acc + x) # cumulative (acc + x) xs"

definition mean :: "real list \<Rightarrow> real" where
  "mean xs = sum_list xs / real (length xs)"

definition valid_count :: "real option list \<Rightarrow> nat" where
  \<comment> \<open>\<^verbatim>\<open>np.sum(~np.isnan(phase_values))\<close>\<close>
  "valid_count phase_values = count_list (map (\<lambda>p. p \<noteq> None) phase_values) True"

definition invert_pixel ::
  "(real list list \<Rightarrow> real list \<Rightarrow> real list option) \<Rightarrow> sbas_network \<Rightarrow> matrix \<Rightarrow> real
     \<Rightarrow> real option list \<Rightarrow> real list option \<Rightarrow> py_error + pixel" where
  "invert_pixel lstsq net A regularization phase_values coherence_values =
     (let n = n_dates net;
          valid_mask = map (\<lambda>p. p \<noteq> None) phase_values;
          untouched = \<lparr>px_velocity = NaN, px_displacement = replicate n (Fin 0),
                       px_residual = Fin 0\<rparr>
      in
      if valid_count phase_values < 3 then Inr untouched
      else if length valid_mask \<noteq> n_rows A then Inl IndexError
      else
        let weights = (case coherence_values of
                         Some c \<Rightarrow> map (\<lambda>x. x\<^sup>2) c
                       | None \<Rightarrow> replicate (length phase_values) 1);
            w = map sqrt (select valid_mask weights);
            A_valid = select valid_mask (map (map real_of_int) (entries A));
            b_valid = map the (select valid_mask phase_values);
            A_weighted = map2 (\<lambda>wk row. map (\<lambda>a. wk * a) row) w A_valid
                           @ map (map (\<lambda>e. regularization * e)) (eye (n_cols A));
            b_weighted = map2 (\<lambda>wk b. wk * b) w b_valid @ replicate (n_cols A) 0
        in
        case lstsq A_weighted b_weighted of
          None \<Rightarrow> Inr untouched
        | Some v \<Rightarrow>
            if n = 0 then Inr untouched
            else
              let written = take n (0 # cumulative 0 v) @ replicate (n - Suc (length v)) 0
              in
              if n \<le> length v \<or> dates net = [] \<or> length v \<noteq> n_cols A
              then Inr \<lparr>px_velocity = NaN, px_displacement = map Fin written,
                        px_residual = Fin 0\<rparr>
              else
                let total_days = days_between (last (dates net)) (hd (dates net))
                in Inr \<lparr>px_velocity = ftimes (fdiv (last written) (real_of_int total_days)) 365,
                        px_displacement = map Fin written,
                        px_residual = Fin (sqrt (mean (map (\<lambda>r. r\<^sup>2)
                                         (map2 (\<lambda>p b. p - b) (mat_vec A_valid v) b_valid))))\<rparr>)"

definition phase_values_at :: "stack \<Rightarrow> nat \<Rightarrow> nat \<Rightarrow> real option list" where
  \<comment> \<open>\<^verbatim>\<open>unwrapped_phases[:, i, j]\<close>\<close>
  "phase_values_at phases i j = map (\<lambda>k. sample phases k i j) [0..<layers phases]"

definition pixel_at ::
  "(real list list \<Rightarrow> real list \<Rightarrow> real list option) \<Rightarrow> sbas_network \<Rightarrow> matrix \<Rightarrow> real
     \<Rightarrow> stack \<Rightarrow> (nat \<Rightarrow> nat \<Rightarrow> nat \<Rightarrow> real) option \<Rightarrow> nat \<Rightarrow> nat \<Rightarrow> py_error + pixel" where
  "pixel_at lstsq net A regularization phases coherence_stack i j =
     invert_pixel lstsq net A regularization (phase_values_at phases i j)
       (map_option (\<lambda>c. map (\<lambda>k. c k i j) [0..<layers phases]) coherence_stack)"

definition invert_velocity ::
  "(real list list \<Rightarrow> real list \<Rightarrow> real list option) \<Rightarrow> sbas_network \<Rightarrow> matrix
     \<Rightarrow> stack \<Rightarrow> (nat \<Rightarrow> nat \<Rightarrow> nat \<Rightarrow> real) option \<Rightarrow> real \<Rightarrow> py_error + inversion_result" where
  \<comment> \<open>\<open>Inl\<close>: the dictionary with status \<^verbatim>\<open>"error"\<close>. The statistics are reductions that
      skip not-a-number; \<^verbatim>\<open>np.nanmin\<close> raises on a raster without pixels.\<close>
  "invert_velocity lstsq net A phases coherence_stack regularization =
     (case collect (map (\<lambda>i. collect (map (pixel_at lstsq net A regularization phases
                                               coherence_stack i) [0..<cols phases]))
                        [0..<rows phases]) of
        Inl e \<Rightarrow> Inl e
      | Inr grid \<Rightarrow>
          if rows phases = 0 \<or> cols phases = 0 then Inl ValueError
          else Inr \<lparr>velocity = map (map px_velocity) grid,
                    displacement_ts =
                      map (\<lambda>k. map (map (\<lambda>p. px_displacement p ! k)) grid) [0..<n_dates net],
                    residual = map (map px_residual) grid\<rparr>)"

section \<open>Phase unwrapping (\<^verbatim>\<open>snaphu_unwrapper.py\<close>, \<^verbatim>\<open>sar_algorithms.py\<close>)\<close>

text \<open>
  A real raster is a list of rows. The two input rasters of the unwrapper have the same
  shape and finite samples.
\<close>

type_synonym raster = "real list list"

definition height :: "'a list list \<Rightarrow> nat" where
  "height a = length a"

definition width :: "'a list list \<Rightarrow> nat" where
  "width a = (case a of [] \<Rightarrow> 0 | r # _ \<Rightarrow> length r)"

definition tabulate2 :: "nat \<Rightarrow> nat \<Rightarrow> (nat \<Rightarrow> nat \<Rightarrow> 'a) \<Rightarrow> 'a list list" where
  \<comment> \<open>the array of shape \<open>(h, w)\<close> with entry \<open>f i j\<close> at \<open>[i, j]\<close>\<close>
  "tabulate2 h w f = map (\<lambda>i. map (\<lambda>j. f i j) [0..<w]) [0..<h]"

definition set2 :: "'a list list \<Rightarrow> nat \<Rightarrow> nat \<Rightarrow> 'a \<Rightarrow> 'a list list" where
  \<comment> \<open>\<^verbatim>\<open>a[i, j] = v\<close> for an index inside the shape\<close>
  "set2 a i j v = a[i := (a ! i)[j := v]]"

definition wrap :: "real \<Rightarrow> real" where
  \<comment> \<open>\<^verbatim>\<open>np.angle(np.exp(1j * x))\<close>\<close>
  "wrap x = Arg (cis x)"

definition np_round :: "real \<Rightarrow> int" where
  \<comment> \<open>\<^verbatim>\<open>np.round\<close>: to the nearest integer, a tie to the even one\<close>
  "np_round x =
     (let f = \<lfloor>x\<rfloor> in
      if x - of_int f < 1/2 then f
      else if 1/2 < x - of_int f then f + 1
      else if even f then f else f + 1)"

definition gradient_x :: "raster \<Rightarrow> raster" where
  "gradient_x phase =
     tabulate2 (height phase) (width phase)
       (\<lambda>i j. wrap (if 1 \<le> j then phase ! i ! j - phase ! i ! (j - 1) else 0))"

definition gradient_y :: "raster \<Rightarrow> raster" where
  "gradient_y phase =
     tabulate2 (height phase) (width phase)
       (\<lambda>i j. wrap (if 1 \<le> i then phase ! i ! j - phase ! (i - 1) ! j else 0))"

definition integrate_rows :: "raster \<Rightarrow> nat \<Rightarrow> nat \<Rightarrow> raster \<Rightarrow> raster" where
  "integrate_rows dx h w unwrapped =
     fold (\<lambda>i. fold (\<lambda>j u. set2 u i j (u ! i ! (j - 1) + dx ! i ! j)) [1..<w]) [0..<h] unwrapped"

definition adjust_columns :: "raster \<Rightarrow> nat \<Rightarrow> nat \<Rightarrow> raster \<Rightarrow> raster" where
  "adjust_columns dy h w unwrapped =
     fold (\<lambda>j. fold (\<lambda>i u.
             let adjustment = dy ! i ! j - (u ! i ! j - u ! (i - 1) ! j)
             in set2 u i j (u ! i ! j + of_int (np_round (adjustment / (2 * pi))) * 2 * pi))
           [1..<h]) [0..<w] unwrapped"

definition integrate_gradients :: "raster \<Rightarrow> raster" where
  \<comment> \<open>the array \<^verbatim>\<open>unwrapped\<close> of \<^verbatim>\<open>SNAPHUUnwrapper._mcf_unwrap\<close> before the smoothing\<close>
  "integrate_gradients wrapped_phase =
     (let h = height wrapped_phase; w = width wrapped_phase
      in adjust_columns (gradient_y wrapped_phase) h w
           (integrate_rows (gradient_x wrapped_phase) h w (tabulate2 h w (\<lambda>i j. 0))))"

definition reflect :: "nat \<Rightarrow> int \<Rightarrow> nat" where
  \<comment> \<open>boundary mode \<^verbatim>\<open>reflect\<close> of \<^verbatim>\<open>scipy.ndimage\<close>: \<^verbatim>\<open>(d c b a | a b c d | d c b a)\<close>\<close>
  "reflect n k =
     (let m = k mod (2 * int n) in nat (if m < int n then m else 2 * int n - 1 - m))"

definition neighbourhood :: "nat \<Rightarrow> nat \<Rightarrow> nat \<Rightarrow> nat \<Rightarrow> (nat \<times> nat) list" where
  \<comment> \<open>the nine samples under a 3 x 3 kernel centred at \<open>[i, j]\<close>\<close>
  "neighbourhood h w i j =
     concat (map (\<lambda>di. map (\<lambda>dj. (reflect h (int i + di), reflect w (int j + dj))) [-1, 0, 1])
                 [-1, 0, 1])"

definition convolve3 :: "raster \<Rightarrow> raster" where
  \<comment> \<open>\<^verbatim>\<open>ndimage.convolve(a, np.ones((3, 3)) / 9)\<close>\<close>
  "convolve3 a =
     tabulate2 (height a) (width a)
       (\<lambda>i j. \<Sum>(r, c) \<leftarrow> neighbourhood (height a) (width a) i j. a ! r ! c * (1 / 9))"

definition fplus :: "real \<Rightarrow> fval \<Rightarrow> fval" where
  "fplus x v = (case v of Fin y \<Rightarrow> Fin (x + y) | other \<Rightarrow> other)"

definition weight_of :: "raster \<Rightarrow> raster \<Rightarrow> raster" where
  \<comment> \<open>\<^verbatim>\<open>weight = coherence ** 2\<close>, on the shape of the phase raster\<close>
  "weight_of wrapped_phase coherence =
     tabulate2 (height wrapped_phase) (width wrapped_phase) (\<lambda>i j. (coherence ! i ! j)\<^sup>2)"

definition unwrapped_smooth :: "raster \<Rightarrow> raster \<Rightarrow> fval list list" where
  \<comment> \<open>\<^verbatim>\<open>ndimage.convolve(unwrapped * weight, kernel) / ndimage.convolve(weight, kernel)\<close>\<close>
  "unwrapped_smooth unwrapped weight =
     (let numerator = convolve3 (tabulate2 (height unwrapped) (width unwrapped)
                                   (\<lambda>i j. unwrapped ! i ! j * weight ! i ! j));
          denominator = convolve3 weight
      in tabulate2 (height unwrapped) (width unwrapped)
           (\<lambda>i j. fdiv (numerator ! i ! j) (denominator ! i ! j)))"

definition mcf_unwrap :: "raster \<Rightarrow> raster \<Rightarrow> fval list list" where
  \<comment> \<open>\<^verbatim>\<open>SNAPHUUnwrapper._mcf_unwrap\<close>\<close>
  "mcf_unwrap wrapped_phase coherence =
     (let weight = weight_of wrapped_phase coherence;
          unwrapped = integrate_gradients wrapped_phase;
          smooth = unwrapped_smooth unwrapped weight
      in tabulate2 (height wrapped_phase) (width wrapped_phase)
           (\<lambda>i j. fplus (unwrapped ! i ! j * (1 - weight ! i ! j))
                         (ftimes (smooth ! i ! j) (weight ! i ! j))))"



subsection \<open>Notions used in the proofs\<close>

text \<open>
  Two phases are congruent when they differ by a whole number of cycles; an array is
  shaped \<open>(h, w)\<close> when it has \<open>h\<close> rows of \<open>w\<close> samples.
\<close>

definition congruent :: "real \<Rightarrow> real \<Rightarrow> bool" where
  "congruent x y \<longleftrightarrow> (\<exists>k::int. x = y + 2 * pi * of_int k)"

definition shaped :: "nat \<Rightarrow> nat \<Rightarrow> 'a list list \<Rightarrow> bool" where
  "shaped h w u \<longleftrightarrow> length u = h \<and> (\<forall>i < h. length (u ! i) = w)"

section \<open>Coherence (\<^verbatim>\<open>sar_algorithms.py\<close>, \<^verbatim>\<open>SARProcessor._compute_coherence\<close>)\<close>

text \<open>
  \<^verbatim>\<open>scipy.ndimage.uniform_filter(input, size)\<close> with its default boundary mode
  \<^verbatim>\<open>reflect\<close>: a running mean of \<open>size\<close> samples, first along the rows axis, then along
  the columns axis. The window of output sample \<open>i\<close> starts at \<open>i - sz div 2\<close>. On a
  complex array the real and the imaginary part are filtered alike, which is the mean of
  the complex samples. A size below 1 raises a RuntimeError.
\<close>

type_synonym craster = "complex list list"







section \<open>Coregistration (\<^verbatim>\<open>sar_algorithms.py\<close>, \<^verbatim>\<open>SARProcessor.coregister_slc\<close>)\<close>

subsection \<open>Array operations of numpy and scipy\<close>

text \<open>
  Element-wise operations broadcast their operands: two axis lengths are compatible when
  they are equal or one of them is 1, and an axis of length 1 is repeated. Incompatible
  shapes raise a ValueError.
\<close>

definition compatible :: "nat \<Rightarrow> nat \<Rightarrow> bool" where
  "compatible m n \<longleftrightarrow> m = n \<or> m = 1 \<or> n = 1"

definition broadcast_dim :: "nat \<Rightarrow> nat \<Rightarrow> nat" where
  "broadcast_dim m n = (if m = 1 then n else m)"

definition pick :: "nat \<Rightarrow> nat \<Rightarrow> nat" where
  \<comment> \<open>the index on an axis of length \<open>n\<close> that serves index \<open>i\<close> of the broadcast result\<close>
  "pick n i = (if n = 1 then 0 else i)"

definition broadcast2 ::
  "('a \<Rightarrow> 'b \<Rightarrow> 'c) \<Rightarrow> 'a list list \<Rightarrow> 'b list list \<Rightarrow> py_error + 'c list list" where
  "broadcast2 f a b =
     (if compatible (height a) (height b) \<and> compatible (width a) (width b)
      then Inr (tabulate2 (broadcast_dim (height a) (height b))
                          (broadcast_dim (width a) (width b))
                  (\<lambda>i j. f (a ! pick (height a) i ! pick (width a) j)
                           (b ! pick (height b) i ! pick (width b) j)))
      else Inl ValueError)"

text \<open>
  The two-dimensional discrete Fourier transform and its inverse, as
  \<^verbatim>\<open>scipy.fftpack.fft2\<close> and \<^verbatim>\<open>ifft2\<close> define them, in exact complex arithmetic. Both raise a
  ValueError on an array with an axis of length 0.
\<close>

definition fft2 :: "craster \<Rightarrow> craster" where
  "fft2 a =
     (let h = height a; w = width a
      in tabulate2 h w
           (\<lambda>u v. \<Sum>m<h. \<Sum>n<w.
                     a ! m ! n * cis (- (2 * pi * (real u * real m / real h
                                                 + real v * real n / real w)))))"

definition ifft2 :: "craster \<Rightarrow> craster" where
  "ifft2 a =
     (let h = height a; w = width a
      in tabulate2 h w
           (\<lambda>k l. (\<Sum>u<h. \<Sum>v<w.
                      a ! u ! v * cis (2 * pi * (real u * real k / real h
                                               + real v * real l / real w)))
                   / of_nat (h * w)))"

fun argmax :: "real list \<Rightarrow> nat" where
  \<comment> \<open>\<^verbatim>\<open>np.argmax\<close>: the index of the first maximum\<close>
  "argmax [] = 0"
| "argmax (x # xs) = (if \<forall>y \<in> set xs. y \<le> x then 0 else Suc (argmax xs))"

definition roll :: "'a list list \<Rightarrow> int \<Rightarrow> int \<Rightarrow> 'a list list" where
  \<comment> \<open>\<^verbatim>\<open>np.roll(data, (r, c), axis=(0, 1))\<close>: sample \<open>[i, j]\<close> moves to \<open>[i + r, j + c]\<close>, cyclically\<close>
  "roll data r c =
     (let h = height data; w = width data
      in tabulate2 h w
           (\<lambda>i j. data ! nat ((int i - r) mod int h) ! nat ((int j - c) mod int w)))"

subsection \<open>The offset estimator and the coregistration\<close>

definition leading_window :: "'a list list \<Rightarrow> nat \<Rightarrow> 'a list list" where
  \<comment> \<open>\<^verbatim>\<open>a[:window_size, :window_size]\<close>\<close>
  "leading_window a window_size = map (take window_size) (take window_size a)"

definition signed_offset :: "nat \<Rightarrow> nat \<Rightarrow> int" where
  \<comment> \<open>\<^verbatim>\<open>p if p < window_size // 2 else p - window_size\<close>\<close>
  "signed_offset p window_size =
     (if p < window_size div 2 then int p else int p - int window_size)"

definition estimate_offset :: "craster \<Rightarrow> craster \<Rightarrow> nat \<Rightarrow> py_error + int \<times> int \<times> fval" where
  "estimate_offset ref sec window_size =
     (let ref_window = leading_window ref window_size;
          sec_window = leading_window sec window_size
      in
      if height ref_window = 0 \<or> width ref_window = 0
         \<or> height sec_window = 0 \<or> width sec_window = 0
      then Inl ValueError
      else
        case broadcast2 (\<lambda>x y. x * cnj y) (fft2 ref_window) (fft2 sec_window) of
          Inl e \<Rightarrow> Inl e
        | Inr product \<Rightarrow>
            let cross_corr = map (map cmod) (ifft2 product);
                flat = concat cross_corr;
                peak = argmax flat;
                peak_row = peak div width cross_corr;
                peak_col = peak mod width cross_corr
            in Inr (signed_offset peak_row window_size,
                    signed_offset peak_col window_size,
                    fdiv (Max (set flat)) (sum_list flat)))"

definition apply_offset :: "craster \<Rightarrow> int \<Rightarrow> int \<Rightarrow> craster" where
  "apply_offset data offset_row offset_col = roll data offset_row offset_col"

definition compute_rms_error :: "craster \<Rightarrow> craster \<Rightarrow> py_error + fval" where
  "compute_rms_error ref sec =
     (case broadcast2 (\<lambda>x y. cmod (x - y)) ref sec of
        Inl e \<Rightarrow> Inl e
      | Inr diff \<Rightarrow>
          (case fdiv (sum_list (map (\<lambda>d. d\<^sup>2) (concat diff))) (real (length (concat diff))) of
             Fin m \<Rightarrow> Inr (Fin (sqrt m))
           | other \<Rightarrow> Inr other))"

text \<open>
  \<^verbatim>\<open>coregister_slc\<close> on the two arrays that \<^verbatim>\<open>_load_slc_data\<close> returns, with the default
  window of 64 samples. Its outcome is the returned dictionary (\<open>Inl\<close>: status
  \<^verbatim>\<open>"error"\<close>, which carries the message only) and the coregistered raster written to
  \<^verbatim>\<open>secondary_coreg.tif\<close>, if the call got that far.
\<close>

record coregistration =
  offset_row :: int
  offset_col :: int
  correlation :: fval
  rms_error :: fval

record outcome =
  status :: "py_error + coregistration"
  coreg_file :: "craster option"

definition coregister_slc :: "craster \<Rightarrow> craster \<Rightarrow> outcome" where
  "coregister_slc ref_data sec_data =
     (case estimate_offset ref_data sec_data 64 of
        Inl e \<Rightarrow> \<lparr>status = Inl e, coreg_file = None\<rparr>
      | Inr (r, c, corr) \<Rightarrow>
          let coreg_data = apply_offset sec_data r c
          in case compute_rms_error ref_data coreg_data of
               Inl e \<Rightarrow> \<lparr>status = Inl e, coreg_file = Some coreg_data\<rparr>
             | Inr rms \<Rightarrow>
                 \<lparr>status = Inr \<lparr>offset_row = r, offset_col = c, correlation = corr,
                                rms_error = rms\<rparr>,
                  coreg_file = Some coreg_data\<rparr>)"

definition impulse :: "nat \<Rightarrow> nat \<Rightarrow> nat \<Rightarrow> nat \<Rightarrow> complex \<Rightarrow> craster" where
  \<comment> \<open>the raster of shape \<open>(h, w)\<close> whose only nonzero sample is \<open>a\<close> at \<open>[p, q]\<close>\<close>
  "impulse h w p q a = tabulate2 h w (\<lambda>m n. if m = p \<and> n = q then a else 0)"

section \<open>Sample inputs\<close>

text \<open>
  The three acquisition dates of the network examples, the object that the constructor
  builds from them, and a baseline source that always answers 0 m (a value that
  \<^verbatim>\<open>np.random.uniform(0, 150)\<close> can draw).
\<close>

definition no_perp :: "nat \<Rightarrow> nat \<Rightarrow> real" where "no_perp i j = 0"

definition three_dates :: "string list" where
  "three_dates = [''2023-01-01'', ''2023-02-01'', ''2023-03-01'']"

definition three_dates_network :: "real \<Rightarrow> sbas_network" where
  "three_dates_network thr =
     \<lparr>dates = [\<lparr>year = 2023, month = 1, day = 1\<rparr>, \<lparr>year = 2023, month = 2, day = 1\<rparr>,
               \<lparr>year = 2023, month = 3, day = 1\<rparr>],
      n_dates = 3, baseline_threshold = thr, pairs = [], baselines = []\<rparr>"

definition three_pairs :: "pair list" where
  "three_pairs =
     [\<lparr>master_idx = 0, slave_idx = 1,
       master_date = \<lparr>year = 2023, month = 1, day = 1\<rparr>,
       slave_date = \<lparr>year = 2023, month = 2, day = 1\<rparr>,
       temporal_baseline = 31, perpendicular_baseline = 0\<rparr>,
      \<lparr>master_idx = 0, slave_idx = 2,
       master_date = \<lparr>year = 2023, month = 1, day = 1\<rparr>,
       slave_date = \<lparr>year = 2023, month = 3, day = 1\<rparr>,
       temporal_baseline = 59, perpendicular_baseline = 0\<rparr>,
      \<lparr>master_idx = 1, slave_idx = 2,
       master_date = \<lparr>year = 2023, month = 2, day = 1\<rparr>,
       slave_date = \<lparr>year = 2023, month = 3, day = 1\<rparr>,
       temporal_baseline = 28, perpendicular_baseline = 0\<rparr>]"

definition three_dates_built :: sbas_network where
  "three_dates_built = fst (build_network (three_dates_network 150) 365 150 no_perp)"

definition three_dates_info :: network_info where
  "three_dates_info =
     \<lparr>info_n_dates = 3, info_n_pairs = 3, info_pairs = three_pairs,
      info_connectivity = \<lparr>is_connected = True, n_connected = 3, n_disconnected = 0\<rparr>\<rparr>"

definition lone_date_info :: network_info where
  "lone_date_info =
     \<lparr>info_n_dates = 3, info_n_pairs = 0, info_pairs = [],
      info_connectivity = \<lparr>is_connected = False, n_connected = 1, n_disconnected = 2\<rparr>\<rparr>"

text \<open>
  A network of two dates with its single pair and design matrix, a stack of one layer and
  one pixel whose only observation is not-a-number, and a least-squares solver that
  always raises.
\<close>

definition failing_lstsq :: "real list list \<Rightarrow> real list \<Rightarrow> real list option" where
  "failing_lstsq M b = None"

definition two_dates_network :: sbas_network where
  "two_dates_network =
     \<lparr>dates = [\<lparr>year = 2023, month = 1, day = 1\<rparr>, \<lparr>year = 2023, month = 2, day = 1\<rparr>],
      n_dates = 2, baseline_threshold = 150,
      pairs = [\<lparr>master_idx = 0, slave_idx = 1,
                master_date = \<lparr>year = 2023, month = 1, day = 1\<rparr>,
                slave_date = \<lparr>year = 2023, month = 2, day = 1\<rparr>,
                temporal_baseline = 31, perpendicular_baseline = 0\<rparr>],
      baselines = [((0, 1), (31, 0))]\<rparr>"

definition one_nan_stack :: stack where
  "one_nan_stack = \<lparr>layers = 1, rows = 1, cols = 1, sample = (\<lambda>k i j. None)\<rparr>"

definition one_by_one :: matrix where
  "one_by_one = \<lparr>n_rows = 1, n_cols = 1, entries = [[31]]\<rparr>"

definition untouched_result :: inversion_result where
  "untouched_result = \<lparr>velocity = [[NaN]], displacement_ts = [[[Fin 0]], [[Fin 0]]], residual = [[Fin 0]]\<rparr>"

definition ramp_phase :: raster where "ramp_phase = [[0, 1]]"
definition full_coherence :: raster where "full_coherence = [[1, 1]]"
definition left_coherence :: raster where "left_coherence = [[1, 0]]"



section \<open>Properties of the SBAS network\<close>

subsection \<open>The accepted pairs\<close>

lemma consider_pair_ok:
  assumes "i < j" "j < n" "\<forall>p \<in> set (fst st). pair_ok ds n p"
  shows "\<forall>p \<in> set (fst (consider_pair ds mt mp perp i j st)). pair_ok ds n p"
  using assms by (auto simp: consider_pair_def Let_def pair_ok_def)

lemma fold_consider_pair_ok:
  assumes "\<forall>j \<in> set js. i < j \<and> j < n" "\<forall>p \<in> set (fst st). pair_ok ds n p"
  shows "\<forall>p \<in> set (fst (fold (consider_pair ds mt mp perp i) js st)). pair_ok ds n p"
  using assms
proof (induction js arbitrary: st)
  case Nil
  then show ?case by simp
next
  case (Cons j js)
  from Cons.prems have "\<forall>p \<in> set (fst (consider_pair ds mt mp perp i j st)). pair_ok ds n p"
    by (intro consider_pair_ok) auto
  with Cons.prems Cons.IH show ?case by simp
qed

lemma outer_fold_ok:
  assumes "\<forall>p \<in> set (fst st). pair_ok ds n p"
  shows "\<forall>p \<in> set (fst (fold (\<lambda>i. fold (consider_pair ds mt mp perp i) [Suc i..<n]) idxs st)). pair_ok ds n p"
  using assms
proof (induction idxs arbitrary: st)
  case Nil
  then show ?case by simp
next
  case (Cons i idxs)
  have "\<forall>p \<in> set (fst (fold (consider_pair ds mt mp perp i) [Suc i..<n] st)). pair_ok ds n p"
    using Cons.prems by (intro fold_consider_pair_ok) auto
  with Cons.IH show ?case by simp
qed

lemma pair_loop_ok:
  "\<forall>p \<in> set (fst (pair_loop ds n mt mp perp ([], b))). pair_ok ds n p"
  unfolding pair_loop_def by (rule outer_fold_ok) simp

lemma fill_row_ok:
  assumes "\<forall>m \<in> set ms. m < length row \<and> Suc m < length ds"
  shows "\<exists>row'. fill_row ds ms row = Inr row' \<and> length row' = length row
           \<and> (\<forall>m < length row. row' ! m =
                 (if m \<in> set ms then days_between (ds ! Suc m) (ds ! m) else row ! m))"
  using assms
proof (induction ms arbitrary: row)
  case Nil
  then show ?case by simp
next
  case (Cons x ms)
  let ?row1 = "row[x := days_between (ds ! Suc x) (ds ! x)]"
  from Cons.prems have "\<forall>m \<in> set ms. m < length ?row1 \<and> Suc m < length ds" by simp
  from Cons.IH [OF this] obtain row' where
    r: "fill_row ds ms ?row1 = Inr row'" "length row' = length row"
       "\<forall>m < length row. row' ! m =
           (if m \<in> set ms then days_between (ds ! Suc m) (ds ! m) else ?row1 ! m)"
    by auto
  from Cons.prems r(1) have "fill_row ds (x # ms) row = Inr row'" by simp
  moreover from r(3) have "\<forall>m < length row. row' ! m =
      (if m \<in> set (x # ms) then days_between (ds ! Suc m) (ds ! m) else row ! m)"
    by (auto simp: nth_list_update)
  ultimately show ?case using r(2) by blast
qed

lemma fill_rows_ok:
  assumes "\<forall>p \<in> set ps. slave_idx p \<le> nu \<and> slave_idx p < length ds"
  shows "\<exists>rows. fill_rows ds nu ps = Inr rows \<and> length rows = length ps
           \<and> (\<forall>k < length ps. length (rows ! k) = nu
                 \<and> (\<forall>m < nu. rows ! k ! m =
                      (if master_idx (ps ! k) \<le> m \<and> m < slave_idx (ps ! k)
                       then days_between (ds ! Suc m) (ds ! m) else 0)))"
  using assms
proof (induction ps)
  case Nil
  then show ?case by simp
next
  case (Cons p ps)
  from Cons.prems have
    "\<forall>m \<in> set [master_idx p..<slave_idx p]. m < length (replicate nu (0::int)) \<and> Suc m < length ds"
    by auto
  from fill_row_ok [OF this] obtain row where
    row: "fill_row ds [master_idx p..<slave_idx p] (replicate nu 0) = Inr row" "length row = nu"
         "\<forall>m < nu. row ! m = (if master_idx p \<le> m \<and> m < slave_idx p
                               then days_between (ds ! Suc m) (ds ! m) else 0)"
    by auto
  from Cons.prems Cons.IH obtain rows where
    rows: "fill_rows ds nu ps = Inr rows" "length rows = length ps"
          "\<forall>k < length ps. length (rows ! k) = nu
                 \<and> (\<forall>m < nu. rows ! k ! m =
                      (if master_idx (ps ! k) \<le> m \<and> m < slave_idx (ps ! k)
                       then days_between (ds ! Suc m) (ds ! m) else 0))"
    by auto
  have "fill_rows ds nu (p # ps) = Inr (row # rows)" using row(1) rows(1) by simp
  moreover have "\<forall>k < length (p # ps). length ((row # rows) ! k) = nu
                 \<and> (\<forall>m < nu. (row # rows) ! k ! m =
                      (if master_idx ((p # ps) ! k) \<le> m \<and> m < slave_idx ((p # ps) ! k)
                       then days_between (ds ! Suc m) (ds ! m) else 0))"
  proof (intro allI impI)
    fix k assume "k < length (p # ps)"
    then show "length ((row # rows) ! k) = nu
                 \<and> (\<forall>m < nu. (row # rows) ! k ! m =
                      (if master_idx ((p # ps) ! k) \<le> m \<and> m < slave_idx ((p # ps) ! k)
                       then days_between (ds ! Suc m) (ds ! m) else 0))"
      using row(2,3) rows(3) by (cases k) auto
  qed
  ultimately show ?case using rows(2) by auto
qed

lemma init_shape:
  assumes "SBASNetwork_init strs thr = Inr net"
  shows "n_dates net = length (dates net)" "sorted (map toordinal (dates net))" "pairs net = []"
  using assms by (auto simp: SBASNetwork_init_def split: sum.splits)

lemma build_network_pairs:
  assumes "build_network net0 mt mp perp = (net, res)"
  shows "dates net = dates net0" "n_dates net = n_dates net0"
        "\<forall>p \<in> set (pairs net). pair_ok (dates net0) (n_dates net0) p"
  using assms pair_loop_ok [of "dates net0" "n_dates net0" mt mp perp "baselines net0"]
  by (auto simp: build_network_def Let_def)

lemma build_network_nonempty:
  assumes "build_network net0 mt mp perp = (net, Inr info)"
  shows "0 < n_dates net0"
  using assms
  by (auto simp: build_network_def Let_def check_connectivity_def split: sum.splits if_splits)


subsection \<open>The design matrix\<close>

lemma design_matrix_rows:
  assumes "SBASNetwork_init strs thr = Inr net0"
      and "build_network net0 max_t max_p perp = (net, Inr info)"
  shows "\<exists>A. get_design_matrix net = Inr A
           \<and> n_rows A = length (pairs net) \<and> n_cols A = n_dates net - 1
           \<and> length (entries A) = length (pairs net)
           \<and> (\<forall>k < length (pairs net).
                 length (entries A ! k) = n_dates net - 1
                 \<and> (\<forall>m < n_dates net - 1.
                       entries A ! k ! m =
                         (if master_idx (pairs net ! k) \<le> m \<and> m < slave_idx (pairs net ! k)
                          then days_between (dates net ! Suc m) (dates net ! m) else 0)))"
proof -
  note sh = init_shape [OF assms(1)]
  note bn = build_network_pairs [OF assms(2)]
  from build_network_nonempty [OF assms(2)] bn(2) have pos: "0 < n_dates net" by simp
  have "\<forall>p \<in> set (pairs net). slave_idx p \<le> n_dates net - 1 \<and> slave_idx p < length (dates net)"
    using bn sh(1) by (auto simp: pair_ok_def)
  from fill_rows_ok [OF this] obtain rows where
    rows: "fill_rows (dates net) (n_dates net - 1) (pairs net) = Inr rows"
          "length rows = length (pairs net)"
          "\<forall>k < length (pairs net). length (rows ! k) = n_dates net - 1
                 \<and> (\<forall>m < n_dates net - 1. rows ! k ! m =
                      (if master_idx (pairs net ! k) \<le> m \<and> m < slave_idx (pairs net ! k)
                       then days_between (dates net ! Suc m) (dates net ! m) else 0))"
    by blast
  let ?A = "\<lparr>n_rows = length (pairs net), n_cols = n_dates net - 1, entries = rows\<rparr>"
  have "get_design_matrix net = Inr ?A"
    using pos rows(1) by (simp add: get_design_matrix_def)
  with rows(2,3) show ?thesis by simp
qed

lemma init_three_dates: "SBASNetwork_init three_dates thr = Inr (three_dates_network thr)"
  unfolding three_dates_def three_dates_network_def by code_simp

lemma gaps:
  "days_between \<lparr>year = 2023, month = 2, day = 1\<rparr> \<lparr>year = 2023, month = 1, day = 1\<rparr> = 31"
  "days_between \<lparr>year = 2023, month = 3, day = 1\<rparr> \<lparr>year = 2023, month = 1, day = 1\<rparr> = 59"
  "days_between \<lparr>year = 2023, month = 3, day = 1\<rparr> \<lparr>year = 2023, month = 2, day = 1\<rparr> = 28"
  by code_simp+

lemma three_dates_build:
  "build_network (three_dates_network 150) 365 150 no_perp = (three_dates_built, Inr three_dates_info)"
  unfolding three_dates_built_def three_dates_info_def three_dates_network_def three_pairs_def
  by code_simp

lemma three_dates_built_pairs: "pairs three_dates_built = three_pairs" "n_dates three_dates_built = 3"
  unfolding three_dates_built_def three_dates_network_def three_pairs_def
  by code_simp+

text \<open>
  Claim C6. For every network built by \<^verbatim>\<open>build_network\<close> on the (sorted) dates of the
  constructor, with N dates and M accepted pairs, \<^verbatim>\<open>get_design_matrix\<close> returns a matrix of
  shape M x (N-1) whose row k, for the pair (i, j), holds \<open>dates[m+1] - dates[m]\<close> in days
  in each column m with \<open>i \<le> m < j\<close> and zero in every other column.
\<close>

theorem design_matrix_shape_and_rows:
  assumes "SBASNetwork_init strs thr = Inr net0"
      and "build_network net0 max_t max_p perp = (net, Inr info)"
  shows "\<exists>A. get_design_matrix net = Inr A
           \<and> n_rows A = length (pairs net) \<and> n_cols A = n_dates net - 1
           \<and> length (entries A) = length (pairs net)
           \<and> (\<forall>k < length (pairs net).
                 length (entries A ! k) = n_dates net - 1
                 \<and> (\<forall>m < n_dates net - 1.
                       entries A ! k ! m =
                         (if master_idx (pairs net ! k) \<le> m \<and> m < slave_idx (pairs net ! k)
                          then days_between (dates net ! Suc m) (dates net ! m) else 0)))"
  using assms by (rule design_matrix_rows)

theorem design_matrix_shape_and_rows_witness:
  "SBASNetwork_init three_dates 150 = Inr (three_dates_network 150)
   \<and> build_network (three_dates_network 150) 365 150 no_perp = (three_dates_built, Inr three_dates_info)
   \<and> (\<exists>A. get_design_matrix three_dates_built = Inr A \<and> n_rows A = 3 \<and> n_cols A = 2)"
  using design_matrix_shape_and_rows [OF init_three_dates three_dates_build]
        init_three_dates three_dates_build three_dates_built_pairs
  by (auto simp: three_pairs_def)

lemma telescope_row:
  fixes f :: "nat \<Rightarrow> int"
  assumes "i \<le> j" "j \<le> n" "length row = n"
      and "\<forall>m < n. row ! m = (if i \<le> m \<and> m < j then f (Suc m) - f m else 0)"
  shows "sum_list row = f j - f i"
proof -
  have "sum_list row = (\<Sum>m = 0..<n. row ! m)"
    using assms(3) by (simp add: sum_list_sum_nth)
  also have "\<dots> = (\<Sum>m = 0..<n. if m \<in> {i..<j} then f (Suc m) - f m else 0)"
    using assms(4) by (intro sum.cong) auto
  also have "\<dots> = (\<Sum>m \<in> {0..<n} \<inter> {i..<j}. f (Suc m) - f m)"
    by (rule sum.inter_restrict [symmetric]) simp
  also have "{0..<n} \<inter> {i..<j} = {i..<j}" using assms(2) by auto
  also have "(\<Sum>m \<in> {i..<j}. f (Suc m) - f m) = f j - f i"
    using assms(1) by (rule sum_Suc_diff')
  finally show ?thesis .
qed

text \<open>
  Claim C10. For every network built by \<^verbatim>\<open>build_network\<close> on the constructor's sorted
  dates, every entry of the design matrix is nonnegative, and the entries of row k sum to
  the temporal baseline in days of the k-th accepted pair, which is
  \<open>dates[slave_idx] - dates[master_idx]\<close>.
\<close>

theorem design_matrix_rows_sum_to_baseline:
  assumes "SBASNetwork_init strs thr = Inr net0"
      and "build_network net0 max_t max_p perp = (net, Inr info)"
  shows "\<exists>A. get_design_matrix net = Inr A
           \<and> (\<forall>k < length (pairs net).
                 (\<forall>m < n_dates net - 1. 0 \<le> entries A ! k ! m)
                 \<and> sum_list (entries A ! k) = temporal_baseline (pairs net ! k)
                 \<and> temporal_baseline (pairs net ! k) =
                     days_between (dates net ! slave_idx (pairs net ! k))
                                  (dates net ! master_idx (pairs net ! k)))"
proof -
  note sh = init_shape [OF assms(1)]
  note bn = build_network_pairs [OF assms(2)]
  from design_matrix_rows [OF assms] obtain A where
    A: "get_design_matrix net = Inr A"
       "\<forall>k < length (pairs net).
                 length (entries A ! k) = n_dates net - 1
                 \<and> (\<forall>m < n_dates net - 1.
                       entries A ! k ! m =
                         (if master_idx (pairs net ! k) \<le> m \<and> m < slave_idx (pairs net ! k)
                          then days_between (dates net ! Suc m) (dates net ! m) else 0))"
    by blast
  have mono: "toordinal (dates net ! a) \<le> toordinal (dates net ! b)"
    if "a \<le> b" "b < length (dates net)" for a b
    using sorted_nth_mono [of "map toordinal (dates net)" a b] sh(2) bn(1) that by simp
  have "(\<forall>m < n_dates net - 1. 0 \<le> entries A ! k ! m)
         \<and> sum_list (entries A ! k) = temporal_baseline (pairs net ! k)
         \<and> temporal_baseline (pairs net ! k) =
             days_between (dates net ! slave_idx (pairs net ! k))
                          (dates net ! master_idx (pairs net ! k))"
    if k: "k < length (pairs net)" for k
  proof -
    let ?p = "pairs net ! k"
    from k bn(3) have ok: "pair_ok (dates net0) (n_dates net0) ?p" by simp
    then have idx: "master_idx ?p < slave_idx ?p" "slave_idx ?p < n_dates net"
      and tb: "temporal_baseline ?p = days_between (dates net ! slave_idx ?p) (dates net ! master_idx ?p)"
      using bn(1,2) by (simp_all add: pair_ok_def)
    from A(2) k have len: "length (entries A ! k) = n_dates net - 1"
      and ent: "\<forall>m < n_dates net - 1. entries A ! k ! m =
                  (if master_idx ?p \<le> m \<and> m < slave_idx ?p
                   then toordinal (dates net ! Suc m) - toordinal (dates net ! m) else 0)"
      by (simp_all add: days_between_def)
    have nonneg: "\<forall>m < n_dates net - 1. 0 \<le> entries A ! k ! m"
    proof (intro allI impI)
      fix m assume m: "m < n_dates net - 1"
      then have "Suc m < length (dates net)" using sh(1) bn(1,2) by simp
      from mono [OF _ this, of m] have "0 \<le> toordinal (dates net ! Suc m) - toordinal (dates net ! m)"
        by simp
      with ent m show "0 \<le> entries A ! k ! m" by simp
    qed
    have "sum_list (entries A ! k)
            = toordinal (dates net ! slave_idx ?p) - toordinal (dates net ! master_idx ?p)"
      using idx len ent
      by (intro telescope_row [where n = "n_dates net - 1" and f = "\<lambda>m. toordinal (dates net ! m)"]) auto
    with tb nonneg show ?thesis by (simp add: days_between_def)
  qed
  with A(1) show ?thesis by blast
qed

theorem design_matrix_rows_sum_witness:
  "SBASNetwork_init three_dates 150 = Inr (three_dates_network 150)
   \<and> build_network (three_dates_network 150) 365 150 no_perp = (three_dates_built, Inr three_dates_info)
   \<and> (\<exists>A. get_design_matrix three_dates_built = Inr A \<and> sum_list (entries A ! 1) = 59)"
proof -
  from design_matrix_rows_sum_to_baseline [OF init_three_dates three_dates_build]
  obtain A where A: "get_design_matrix three_dates_built = Inr A"
    "\<forall>k < length (pairs three_dates_built).
        sum_list (entries A ! k) = temporal_baseline (pairs three_dates_built ! k)"
    by blast
  from A(2) have "sum_list (entries A ! 1) = 59"
    by (simp add: three_dates_built_pairs three_pairs_def)
  with A(1) init_three_dates three_dates_build show ?thesis by blast
qed

subsection \<open>The three-date examples\<close>

text \<open>
  Claim C4. Building the network from the dates 2023-01-01, 2023-02-01, 2023-03-01 with
  thresholds that allow all pairs (a temporal threshold of at least the longest gap, 59
  days, and a perpendicular threshold that no drawn baseline exceeds) produces exactly the
  three pairs (0,1), (0,2), (1,2), and the connectivity check reports
  \<^verbatim>\<open>is_connected = True\<close>.
\<close>

theorem three_dates_all_pairs:
  assumes "59 \<le> max_t" and "\<forall>i j. perp i j \<le> max_p"
  shows "\<exists>net0 net info.
           SBASNetwork_init three_dates thr = Inr net0
           \<and> build_network net0 max_t max_p perp = (net, Inr info)
           \<and> map (\<lambda>p. (master_idx p, slave_idx p)) (pairs net) = [(0, 1), (0, 2), (1, 2)]
           \<and> info_pairs info = pairs net \<and> info_n_pairs info = 3
           \<and> is_connected (info_connectivity info)"
proof -
  have np: "\<And>i j. \<not> max_p < perp i j" using assms(2) by (simp add: not_less)
  have "\<exists>net info.
           build_network (three_dates_network thr) max_t max_p perp = (net, Inr info)
           \<and> map (\<lambda>p. (master_idx p, slave_idx p)) (pairs net) = [(0, 1), (0, 2), (1, 2)]
           \<and> info_pairs info = pairs net \<and> info_n_pairs info = 3
           \<and> is_connected (info_connectivity info)"
    using assms(1)
    by (simp add: build_network_def pair_loop_def three_dates_network_def eval_nat_numeral
          consider_pair_def gaps Let_def np check_connectivity_def set_entry_def visit_neighbor_def)
  with init_three_dates [of thr] show ?thesis by simp
qed

theorem three_dates_all_pairs_witness:
  "(59::int) \<le> 365 \<and> (\<forall>i j. no_perp i j \<le> 150)
   \<and> (\<exists>net0 net info.
           SBASNetwork_init three_dates 150 = Inr net0
           \<and> build_network net0 365 150 no_perp = (net, Inr info)
           \<and> map (\<lambda>p. (master_idx p, slave_idx p)) (pairs net) = [(0, 1), (0, 2), (1, 2)]
           \<and> info_pairs info = pairs net \<and> info_n_pairs info = 3
           \<and> is_connected (info_connectivity info))"
proof -
  have h1: "(59::int) \<le> 365" by simp
  have h2: "\<forall>i j. no_perp i j \<le> 150" by (simp add: no_perp_def)
  from three_dates_all_pairs [OF h1 h2, of 150] h1 h2 show ?thesis by blast
qed

text \<open>
  Claim C5 as stated fails: the gaps between the three dates are 31, 59 and 28 days, so
  with \<^verbatim>\<open>max_temporal_baseline = 20\<close> the loop skips every pair. The result holds no pair
  (not two), and the breadth-first search reaches date 0 only.
\<close>

theorem three_dates_twenty_days_counterexample:
  "SBASNetwork_init three_dates 150 = Inr (three_dates_network 150)
   \<and> snd (build_network (three_dates_network 150) 20 150 no_perp) = Inr lone_date_info
   \<and> info_n_pairs lone_date_info \<noteq> 2
   \<and> \<not> is_connected (info_connectivity lone_date_info)"
proof -
  have "snd (build_network (three_dates_network 150) 20 150 no_perp) = Inr lone_date_info"
    unfolding three_dates_network_def lone_date_info_def by code_simp
  with init_three_dates [of 150] show ?thesis by (simp add: lone_date_info_def)
qed

text \<open>
  Claim C5, amended. Building the network from the dates 2023-01-01, 2023-02-01,
  2023-03-01 with \<^verbatim>\<open>max_temporal_baseline = 20\<close> produces exactly the pairs whose temporal
  gap is at most 20 days, which are none, and reports \<^verbatim>\<open>is_connected = False\<close> with one
  date reached and two not. With a temporal threshold from 31 to 58 days (and a
  perpendicular threshold that no drawn baseline exceeds) it produces exactly the two
  pairs (0,1) and (1,2) of 31 and 28 days, and the network is still reported connected.
\<close>

theorem three_dates_temporal_threshold:
  "(\<exists>net0 net.
       SBASNetwork_init three_dates thr = Inr net0
       \<and> build_network net0 20 max_p perp = (net, Inr lone_date_info) \<and> pairs net = [])
   \<and> (31 \<le> max_t \<and> max_t < 59 \<and> (\<forall>i j. perp i j \<le> max_p) \<longrightarrow>
        (\<exists>net0 net info.
           SBASNetwork_init three_dates thr = Inr net0
           \<and> build_network net0 max_t max_p perp = (net, Inr info)
           \<and> map (\<lambda>p. (master_idx p, slave_idx p, temporal_baseline p)) (pairs net)
               = [(0, 1, 31), (1, 2, 28)]
           \<and> info_pairs info = pairs net \<and> info_n_pairs info = 2
           \<and> is_connected (info_connectivity info)))"
proof (intro conjI impI)
  have "\<exists>net. build_network (three_dates_network thr) 20 max_p perp = (net, Inr lone_date_info)
          \<and> pairs net = []"
    by (simp add: build_network_def pair_loop_def three_dates_network_def eval_nat_numeral
          consider_pair_def gaps Let_def check_connectivity_def set_entry_def visit_neighbor_def
          lone_date_info_def)
  with init_three_dates [of thr]
  show "\<exists>net0 net. SBASNetwork_init three_dates thr = Inr net0
       \<and> build_network net0 20 max_p perp = (net, Inr lone_date_info) \<and> pairs net = []"
    by simp
next
  assume a: "31 \<le> max_t \<and> max_t < 59 \<and> (\<forall>i j. perp i j \<le> max_p)"
  then have np: "\<And>i j. \<not> max_p < perp i j" by (simp add: not_less)
  have "\<exists>net info.
           build_network (three_dates_network thr) max_t max_p perp = (net, Inr info)
           \<and> map (\<lambda>p. (master_idx p, slave_idx p, temporal_baseline p)) (pairs net)
               = [(0, 1, 31), (1, 2, 28)]
           \<and> info_pairs info = pairs net \<and> info_n_pairs info = 2
           \<and> is_connected (info_connectivity info)"
    using a
    by (simp add: build_network_def pair_loop_def three_dates_network_def eval_nat_numeral
          consider_pair_def gaps Let_def np check_connectivity_def set_entry_def visit_neighbor_def)
  with init_three_dates [of thr]
  show "\<exists>net0 net info.
           SBASNetwork_init three_dates thr = Inr net0
           \<and> build_network net0 max_t max_p perp = (net, Inr info)
           \<and> map (\<lambda>p. (master_idx p, slave_idx p, temporal_baseline p)) (pairs net)
               = [(0, 1, 31), (1, 2, 28)]
           \<and> info_pairs info = pairs net \<and> info_n_pairs info = 2
           \<and> is_connected (info_connectivity info)"
    by simp
qed

theorem three_dates_temporal_threshold_witness:
  "(31::int) \<le> 31 \<and> (31::int) < 59 \<and> (\<forall>i j. no_perp i j \<le> 150)
   \<and> (\<exists>net0 net info.
           SBASNetwork_init three_dates 150 = Inr net0
           \<and> build_network net0 31 150 no_perp = (net, Inr info)
           \<and> map (\<lambda>p. (master_idx p, slave_idx p, temporal_baseline p)) (pairs net)
               = [(0, 1, 31), (1, 2, 28)]
           \<and> info_pairs info = pairs net \<and> info_n_pairs info = 2
           \<and> is_connected (info_connectivity info))"
proof -
  have h: "(31::int) \<le> 31 \<and> (31::int) < 59 \<and> (\<forall>i j. no_perp i j \<le> 150)"
    by (simp add: no_perp_def)
  from three_dates_temporal_threshold [of 150 150 no_perp 31] h show ?thesis by blast
qed

section \<open>Properties of the SBAS inversion\<close>

lemma collect_Inr:
  "collect xs = Inr ys \<Longrightarrow> length ys = length xs \<and> (\<forall>i < length xs. xs ! i = Inr (ys ! i))"
proof (induction xs arbitrary: ys)
  case Nil
  then show ?case by simp
next
  case (Cons x xs)
  from Cons.prems obtain y ys' where x: "x = Inr y" and c: "collect xs = Inr ys'" and ys: "ys = y # ys'"
    by (auto split: sum.splits)
  from Cons.IH [OF c] x ys show ?case by (auto simp: nth_Cons split: nat.splits)
qed

lemma collect_all_Inr:
  "(\<forall>x \<in> set xs. \<exists>y. x = Inr y) \<Longrightarrow> \<exists>ys. collect xs = Inr ys"
  by (induction xs) auto

lemma sparse_pixel_untouched:
  assumes "valid_count phase_values < 3"
  shows "invert_pixel lstsq net A reg phase_values coh =
           Inr \<lparr>px_velocity = NaN, px_displacement = replicate (n_dates net) (Fin 0),
                px_residual = Fin 0\<rparr>"
  using assms by (simp add: invert_pixel_def Let_def)

lemma invert_pixel_no_error:
  assumes "length phase_values = n_rows A"
  shows "\<exists>p. invert_pixel lstsq net A reg phase_values coh = Inr p"
  using assms by (auto simp: invert_pixel_def Let_def split: option.splits)

text \<open>
  Claim C3, amended. For every phase stack with one layer per row of the design matrix,
  and every pixel whose observation vector has fewer than 3 entries that are not
  not-a-number, the inversion run completes, the pixel is not-a-number in the velocity
  raster, and the pixel keeps its initial value 0 in every raster of the displacement time
  series and in the residual raster.
\<close>

theorem sparse_pixel_marked:
  assumes "layers phases = n_rows A"
      and "i < rows phases" and "j < cols phases"
      and "valid_count (phase_values_at phases i j) < 3"
  shows "\<exists>res. invert_velocity lstsq net A phases coh reg = Inr res
           \<and> velocity res ! i ! j = NaN
           \<and> (\<forall>k < n_dates net. displacement_ts res ! k ! i ! j = Fin 0)
           \<and> residual res ! i ! j = Fin 0"
proof -
  let ?px = "pixel_at lstsq net A reg phases coh"
  have ok: "\<exists>p. ?px a b = Inr p" for a b
    unfolding pixel_at_def using assms(1)
    by (intro invert_pixel_no_error) (simp add: phase_values_at_def)
  have "\<exists>r. collect (map (?px a) [0..<cols phases]) = Inr r" for a
    using ok by (intro collect_all_Inr) auto
  then have "\<exists>g. collect (map (\<lambda>a. collect (map (?px a) [0..<cols phases])) [0..<rows phases]) = Inr g"
    by (intro collect_all_Inr) auto
  then obtain grid where
    grid: "collect (map (\<lambda>a. collect (map (?px a) [0..<cols phases])) [0..<rows phases]) = Inr grid"
    by blast
  from collect_Inr [OF grid] assms(2) have
    lg: "length grid = rows phases" and row: "collect (map (?px i) [0..<cols phases]) = Inr (grid ! i)"
    by auto
  from collect_Inr [OF row] assms(3) have
    lr: "length (grid ! i) = cols phases" and px: "?px i j = Inr (grid ! i ! j)"
    by auto
  from px sparse_pixel_untouched [OF assms(4), of lstsq net A reg] have
    cell: "grid ! i ! j = \<lparr>px_velocity = NaN, px_displacement = replicate (n_dates net) (Fin 0),
                            px_residual = Fin 0\<rparr>"
    by (simp add: pixel_at_def)
  let ?res = "\<lparr>velocity = map (map px_velocity) grid,
               displacement_ts =
                 map (\<lambda>k. map (map (\<lambda>p. px_displacement p ! k)) grid) [0..<n_dates net],
               residual = map (map px_residual) grid\<rparr>"
  have "invert_velocity lstsq net A phases coh reg = Inr ?res"
    using grid assms(2,3) by (simp add: invert_velocity_def)
  moreover have "velocity ?res ! i ! j = NaN" "residual ?res ! i ! j = Fin 0"
    using lg lr cell assms(2,3) by simp_all
  moreover have "\<forall>k < n_dates net. displacement_ts ?res ! k ! i ! j = Fin 0"
    using lg lr cell assms(2,3) by simp
  ultimately show ?thesis by blast
qed

theorem sparse_pixel_marked_witness:
  "layers one_nan_stack = n_rows one_by_one \<and> 0 < rows one_nan_stack \<and> 0 < cols one_nan_stack
   \<and> valid_count (phase_values_at one_nan_stack 0 0) < 3
   \<and> (\<exists>res. invert_velocity failing_lstsq two_dates_network one_by_one one_nan_stack None (1/100) = Inr res
           \<and> velocity res ! 0 ! 0 = NaN
           \<and> (\<forall>k < n_dates two_dates_network. displacement_ts res ! k ! 0 ! 0 = Fin 0)
           \<and> residual res ! 0 ! 0 = Fin 0)"
proof -
  have h: "layers one_nan_stack = n_rows one_by_one" "0 < rows one_nan_stack" "0 < cols one_nan_stack"
    "valid_count (phase_values_at one_nan_stack 0 0) < 3"
    by (simp_all add: one_nan_stack_def one_by_one_def valid_count_def phase_values_at_def)
  from sparse_pixel_marked [OF h, of failing_lstsq two_dates_network None "1/100"] h
  show ?thesis by simp
qed

text \<open>
  Claim C3 as stated fails for the displacement time series: the skip branch writes
  \<^verbatim>\<open>velocity[i, j] = np.nan\<close> and continues, so the displacement rasters keep the zeros of
  \<^verbatim>\<open>np.zeros\<close> at that pixel. Here the only observation of the only pixel is not-a-number.
\<close>

theorem sparse_pixel_counterexample:
  "valid_count (phase_values_at one_nan_stack 0 0) = 0
   \<and> invert_velocity failing_lstsq two_dates_network one_by_one one_nan_stack None (1/100)
       = Inr untouched_result
   \<and> displacement_ts untouched_result ! 1 ! 0 ! 0 \<noteq> NaN"
  by (simp add: invert_velocity_def pixel_at_def phase_values_at_def invert_pixel_def valid_count_def
        one_nan_stack_def two_dates_network_def one_by_one_def untouched_result_def Let_def
        eval_nat_numeral)

section \<open>Properties of the fallback unwrapper\<close>

subsection \<open>Arrays and congruence\<close>

lemma tabulate2_nth [simp]: "i < h \<Longrightarrow> j < w \<Longrightarrow> tabulate2 h w f ! i ! j = f i j"
  by (simp add: tabulate2_def)

lemma tabulate2_shaped [simp]: "shaped h w (tabulate2 h w f)"
  by (simp add: shaped_def tabulate2_def)

lemma height_tabulate2 [simp]: "height (tabulate2 h w f) = h"
  by (simp add: height_def tabulate2_def)

lemma width_nth: "a \<noteq> [] \<Longrightarrow> width a = length (a ! 0)"
  by (cases a) (simp_all add: width_def)

lemma width_tabulate2 [simp]: "0 < h \<Longrightarrow> width (tabulate2 h w f) = w"
  by (subst width_nth) (simp_all add: tabulate2_def)

lemma set2_shaped: "shaped h w u \<Longrightarrow> shaped h w (set2 u i j v)"
proof -
  assume u: "shaped h w u"
  have "length (set2 u i j v ! a) = w" if "a < h" for a
    using u that by (cases "a = i") (simp_all add: shaped_def set2_def)
  with u show ?thesis by (simp add: shaped_def set2_def)
qed

lemma set2_nth:
  "shaped h w u \<Longrightarrow> i < h \<Longrightarrow> j < w \<Longrightarrow> i' < h \<Longrightarrow> j' < w \<Longrightarrow>
     set2 u i j v ! i' ! j' = (if i' = i \<and> j' = j then v else u ! i' ! j')"
  by (auto simp: shaped_def set2_def nth_list_update)

lemma congruent_refl [simp]: "congruent x x"
  unfolding congruent_def by (rule exI [of _ 0]) simp

lemma congruent_add: "congruent a b \<Longrightarrow> congruent c d \<Longrightarrow> congruent (a + c) (b + d)"
  unfolding congruent_def
proof -
  assume "\<exists>k::int. a = b + 2 * pi * of_int k" "\<exists>k::int. c = d + 2 * pi * of_int k"
  then obtain k l :: int where "a = b + 2 * pi * of_int k" "c = d + 2 * pi * of_int l" by blast
  then have "a + c = b + d + 2 * pi * of_int (k + l)" by (simp add: algebra_simps)
  then show "\<exists>k::int. a + c = b + d + 2 * pi * of_int k" by blast
qed


lemma congruent_turns: "congruent a b \<Longrightarrow> congruent (a + of_int n * 2 * pi) b"
  unfolding congruent_def
proof -
  assume "\<exists>k::int. a = b + 2 * pi * of_int k"
  then obtain k :: int where "a = b + 2 * pi * of_int k" by blast
  then have "a + of_int n * 2 * pi = b + 2 * pi * of_int (k + n)" by (simp add: algebra_simps)
  then show "\<exists>k::int. a + of_int n * 2 * pi = b + 2 * pi * of_int k" by blast
qed

lemma congruent_wrap: "congruent (wrap x) x"
proof -
  have "cis (wrap x) = cis x" unfolding wrap_def by (simp add: cis_Arg)
  then have "sin (wrap x) = sin x \<and> cos (wrap x) = cos x" by (simp add: complex_eq_iff)
  then show ?thesis unfolding congruent_def by (simp add: sin_cos_eq_iff)
qed


lemma fold_upt_invariant:
  assumes "P a s" and "\<And>k s. a \<le> k \<Longrightarrow> k < b \<Longrightarrow> P k s \<Longrightarrow> P (Suc k) (f k s)"
  shows "P (max a b) (fold f [a..<b] s)"
  using assms(2)
proof (induction b)
  case 0
  with assms(1) show ?case by (simp add: max_def)
next
  case (Suc b)
  show ?case
  proof (cases "a \<le> b")
    case True
    have "P (max a b) (fold f [a..<b] s)" using Suc.prems by (intro Suc.IH) auto
    with True have "P b (fold f [a..<b] s)" by (simp add: max_def)
    with True Suc.prems [of b] have "P (Suc b) (f b (fold f [a..<b] s))" by simp
    with True show ?thesis by (simp add: max_def)
  next
    case False
    then have "[a..<Suc b] = []" "max a (Suc b) = a" by simp_all
    with assms(1) show ?thesis by simp
  qed
qed

subsection \<open>The integration loops\<close>

text \<open>
  Row integration leaves, in row \<open>i\<close>, values congruent to \<open>phase[i][j] - phase[i][0]\<close>;
  the column adjustment adds whole cycles only, so it keeps every congruence.
\<close>

lemma integrate_row:
  fixes b :: "nat \<Rightarrow> nat \<Rightarrow> real"
  assumes r: "r < h"
      and sh: "shaped h w u"
      and above: "\<forall>i<h. \<forall>j<w. i < r \<longrightarrow> congruent (u ! i ! j) (b i j - b i 0)"
      and below: "\<forall>i<h. r \<le> i \<longrightarrow> 0 < w \<longrightarrow> u ! i ! 0 = 0"
      and dx: "\<forall>j<w. 1 \<le> j \<longrightarrow> congruent (dx ! r ! j) (b r j - b r (j - 1))"
  shows "shaped h w (fold (\<lambda>j u. set2 u r j (u ! r ! (j - 1) + dx ! r ! j)) [1..<w] u)
       \<and> (\<forall>i<h. \<forall>j<w. i < Suc r \<longrightarrow>
             congruent (fold (\<lambda>j u. set2 u r j (u ! r ! (j - 1) + dx ! r ! j)) [1..<w] u ! i ! j)
                       (b i j - b i 0))
       \<and> (\<forall>i<h. Suc r \<le> i \<longrightarrow> 0 < w \<longrightarrow>
             fold (\<lambda>j u. set2 u r j (u ! r ! (j - 1) + dx ! r ! j)) [1..<w] u ! i ! 0 = 0)"
proof -
  let ?step = "\<lambda>j u. set2 u r j (u ! r ! (j - 1) + dx ! r ! j)"
  let ?P = "\<lambda>c v. shaped h w v
       \<and> (\<forall>i<h. \<forall>j<w. i < r \<longrightarrow> congruent (v ! i ! j) (b i j - b i 0))
       \<and> (\<forall>j<w. j < c \<longrightarrow> congruent (v ! r ! j) (b r j - b r 0))
       \<and> (\<forall>i<h. r < i \<longrightarrow> 0 < w \<longrightarrow> v ! i ! 0 = 0)"
  have start: "?P 1 u"
  proof -
    have "congruent (u ! r ! j) (b r j - b r 0)" if "j < w" "j < 1" for j
    proof -
      from that have "j = 0" "0 < w" by simp_all
      with below r have "u ! r ! j = 0" by simp
      with \<open>j = 0\<close> show ?thesis by simp
    qed
    with sh above below show ?thesis by simp
  qed
  have step: "?P (Suc c) (?step c v)" if c: "1 \<le> c" "c < w" and P: "?P c v" for c v
  proof -
    from P have shv: "shaped h w v" by simp
    have nth: "?step c v ! i ! j = (if i = r \<and> j = c then v ! r ! (c - 1) + dx ! r ! c else v ! i ! j)"
      if "i < h" "j < w" for i j
      using set2_nth [OF shv r c(2) that] by simp
    have new: "congruent (v ! r ! (c - 1) + dx ! r ! c) (b r c - b r 0)"
    proof -
      from P c have "congruent (v ! r ! (c - 1)) (b r (c - 1) - b r 0)" by simp
      moreover from dx c have "congruent (dx ! r ! c) (b r c - b r (c - 1))" by simp
      ultimately have "congruent (v ! r ! (c - 1) + dx ! r ! c)
                         ((b r (c - 1) - b r 0) + (b r c - b r (c - 1)))"
        by (rule congruent_add)
      then show ?thesis by simp
    qed
    have "shaped h w (?step c v)" using shv by (rule set2_shaped)
    moreover have "\<forall>i<h. \<forall>j<w. i < r \<longrightarrow> congruent (?step c v ! i ! j) (b i j - b i 0)"
      using P nth by simp
    moreover have "\<forall>j<w. j < Suc c \<longrightarrow> congruent (?step c v ! r ! j) (b r j - b r 0)"
    proof (intro allI impI)
      fix j assume j: "j < w" "j < Suc c"
      show "congruent (?step c v ! r ! j) (b r j - b r 0)"
      proof (cases "j = c")
        case True
        with new nth [OF r j(1)] show ?thesis by simp
      next
        case False
        with j have "j < c" by simp
        with P j(1) have "congruent (v ! r ! j) (b r j - b r 0)" by simp
        with False nth [OF r j(1)] show ?thesis by simp
      qed
    qed
    moreover have "\<forall>i<h. r < i \<longrightarrow> 0 < w \<longrightarrow> ?step c v ! i ! 0 = 0"
      using P nth by simp
    ultimately show ?thesis by simp
  qed
  have fin: "?P (max 1 w) (fold ?step [1..<w] u)"
    by (rule fold_upt_invariant [where P = ?P, OF start]) (rule step)
  let ?u' = "fold ?step [1..<w] u"
  have "congruent (?u' ! i ! j) (b i j - b i 0)" if "i < h" "j < w" "i < Suc r" for i j
  proof (cases "i = r")
    case True
    from that(2) have "j < max 1 w" by simp
    with fin that(2) True show ?thesis by simp
  next
    case False
    with that have "i < r" by simp
    with fin that show ?thesis by simp
  qed
  moreover have "?u' ! i ! 0 = 0" if "i < h" "Suc r \<le> i" "0 < w" for i
    using fin that by simp
  ultimately show ?thesis using fin by simp
qed

lemma integrate_rows_congruent:
  fixes b :: "nat \<Rightarrow> nat \<Rightarrow> real"
  assumes dx: "\<forall>i<h. \<forall>j<w. 1 \<le> j \<longrightarrow> congruent (dx ! i ! j) (b i j - b i (j - 1))"
  shows "shaped h w (integrate_rows dx h w (tabulate2 h w (\<lambda>i j. 0)))
       \<and> (\<forall>i<h. \<forall>j<w. congruent (integrate_rows dx h w (tabulate2 h w (\<lambda>i j. 0)) ! i ! j)
                                 (b i j - b i 0))"
proof -
  let ?inner = "\<lambda>i. fold (\<lambda>j u. set2 u i j (u ! i ! (j - 1) + dx ! i ! j)) [1..<w]"
  let ?Q = "\<lambda>r v. shaped h w v
       \<and> (\<forall>i<h. \<forall>j<w. i < r \<longrightarrow> congruent (v ! i ! j) (b i j - b i 0))
       \<and> (\<forall>i<h. r \<le> i \<longrightarrow> 0 < w \<longrightarrow> v ! i ! 0 = 0)"
  have start: "?Q 0 (tabulate2 h w (\<lambda>i j. 0))" by simp
  have step: "?Q (Suc r) (?inner r v)" if "0 \<le> r" "r < h" "?Q r v" for r v
  proof -
    from dx that(2) have "\<forall>j<w. 1 \<le> j \<longrightarrow> congruent (dx ! r ! j) (b r j - b r (j - 1))" by simp
    with that show ?thesis by (intro integrate_row) simp_all
  qed
  have "?Q (max 0 h) (fold ?inner [0..<h] (tabulate2 h w (\<lambda>i j. 0)))"
    by (rule fold_upt_invariant [where P = ?Q, OF start]) (rule step)
  then show ?thesis by (simp add: integrate_rows_def)
qed

lemma adjust_columns_congruent:
  fixes base :: "nat \<Rightarrow> nat \<Rightarrow> real"
  assumes "shaped h w u" and "\<forall>i<h. \<forall>j<w. congruent (u ! i ! j) (base i j)"
  shows "shaped h w (adjust_columns dy h w u)
       \<and> (\<forall>i<h. \<forall>j<w. congruent (adjust_columns dy h w u ! i ! j) (base i j))"
proof -
  let ?I = "\<lambda>(k::nat) v. shaped h w v \<and> (\<forall>i<h. \<forall>j<w. congruent (v ! i ! j) (base i j))"
  let ?cell = "\<lambda>j i u.
             let adjustment = dy ! i ! j - (u ! i ! j - u ! (i - 1) ! j)
             in set2 u i j (u ! i ! j + of_int (np_round (adjustment / (2 * pi))) * 2 * pi)"
  have cell: "?I (Suc i) (?cell j i v)" if "i < h" "j < w" "?I i v" for i j v
  proof -
    from that have shv: "shaped h w v" by simp
    let ?n = "np_round ((dy ! i ! j - (v ! i ! j - v ! (i - 1) ! j)) / (2 * pi))"
    have eq: "?cell j i v = set2 v i j (v ! i ! j + of_int ?n * 2 * pi)" by (simp add: Let_def)
    have "congruent (set2 v i j (v ! i ! j + of_int ?n * 2 * pi) ! a ! c) (base a c)"
      if ac: "a < h" "c < w" for a c
    proof (cases "a = i \<and> c = j")
      case True
      from \<open>?I i v\<close> ac have "congruent (v ! i ! j) (base i j)" using True by simp
      then have "congruent (v ! i ! j + of_int ?n * 2 * pi) (base i j)" by (rule congruent_turns)
      with True set2_nth [OF shv \<open>i < h\<close> \<open>j < w\<close> ac] show ?thesis by simp
    next
      case False
      with \<open>?I i v\<close> ac set2_nth [OF shv \<open>i < h\<close> \<open>j < w\<close> ac] show ?thesis by auto
    qed
    with set2_shaped [OF shv] eq show ?thesis by simp
  qed
  have column: "?I (Suc j) (fold (?cell j) [1..<h] v)" if "j < w" "?I j v" for j v
  proof -
    have "?I (max 1 h) (fold (?cell j) [1..<h] v)"
    proof (rule fold_upt_invariant [where P = ?I])
      from that show "?I 1 v" by simp
    next
      fix k s assume "1 \<le> k" "k < h" "?I k s"
      with that(1) show "?I (Suc k) (?cell j k s)" by (intro cell) simp_all
    qed
    then show ?thesis by simp
  qed
  have "?I (max 0 w) (fold (\<lambda>j. fold (?cell j) [1..<h]) [0..<w] u)"
  proof (rule fold_upt_invariant [where P = ?I])
    from assms show "?I 0 u" by simp
  next
    fix k s assume "0 \<le> k" "k < w" "?I k s"
    then show "?I (Suc k) (fold (?cell k) [1..<h] s)" by (intro column) simp_all
  qed
  then show ?thesis by (simp add: adjust_columns_def)
qed


lemma integrate_gradients_shaped:
  "shaped (height phase) (width phase) (integrate_gradients phase)"
proof -
  let ?h = "height phase" and ?w = "width phase"
  have "\<forall>i<?h. \<forall>j<?w. 1 \<le> j \<longrightarrow>
          congruent (gradient_x phase ! i ! j) (phase ! i ! j - phase ! i ! (j - 1))"
    by (simp add: gradient_x_def congruent_wrap)
  from integrate_rows_congruent [where b = "\<lambda>i j. phase ! i ! j", OF this]
  have rows: "shaped ?h ?w (integrate_rows (gradient_x phase) ?h ?w (tabulate2 ?h ?w (\<lambda>i j. 0)))"
    "\<forall>i<?h. \<forall>j<?w. congruent (integrate_rows (gradient_x phase) ?h ?w (tabulate2 ?h ?w (\<lambda>i j. 0)) ! i ! j)
                                 (phase ! i ! j - phase ! i ! 0)"
    by simp_all
  from adjust_columns_congruent [OF rows, of "gradient_y phase"]
  show ?thesis by (simp add: integrate_gradients_def Let_def)
qed


subsection \<open>The smoothing and the blend\<close>

lemma reflect_less: "0 < n \<Longrightarrow> reflect n k < n"
proof -
  assume n: "0 < n"
  let ?m = "k mod (2 * int n)"
  from n have "0 \<le> ?m" "?m < 2 * int n" by simp_all
  then show ?thesis by (auto simp: reflect_def Let_def)
qed

lemma reflect_inside: "i < n \<Longrightarrow> reflect n (int i) = i"
  by (simp add: reflect_def Let_def)

lemma neighbourhood_inside:
  assumes "0 < h" "0 < w" "(r, c) \<in> set (neighbourhood h w i j)"
  shows "r < h \<and> c < w"
  using assms by (auto simp: neighbourhood_def reflect_less)

lemma neighbourhood_centre:
  assumes "i < h" "j < w"
  shows "(i, j) \<in> set (neighbourhood h w i j)"
  using assms by (simp add: neighbourhood_def reflect_inside)

lemma shaped_height: "shaped h w u \<Longrightarrow> height u = h"
  by (simp add: shaped_def height_def)

lemma shaped_width: "shaped h w u \<Longrightarrow> 0 < h \<Longrightarrow> width u = w"
  by (subst width_nth) (auto simp: shaped_def)

lemma convolve3_nth:
  assumes "shaped h w a" "i < h" "j < w"
  shows "convolve3 a ! i ! j = (\<Sum>(r, c) \<leftarrow> neighbourhood h w i j. a ! r ! c) / 9"
proof -
  from assms have hw: "height a = h" "width a = w"
    by (simp_all add: shaped_height shaped_width)
  have "convolve3 a ! i ! j = (\<Sum>(r, c) \<leftarrow> neighbourhood h w i j. a ! r ! c * (1 / 9))"
    using assms(2,3) by (simp add: convolve3_def hw)
  also have "\<dots> = (\<Sum>x \<leftarrow> neighbourhood h w i j. (a ! fst x ! snd x) * (1 / 9))"
    by (simp add: case_prod_unfold)
  also have "\<dots> = (\<Sum>x \<leftarrow> neighbourhood h w i j. a ! fst x ! snd x) * (1 / 9)"
    by (rule sum_list_mult_const)
  finally show ?thesis by (simp add: case_prod_unfold)
qed

lemma sum_list_cong_set:
  fixes f g :: "'a \<Rightarrow> real"
  shows "(\<And>x. x \<in> set xs \<Longrightarrow> f x = g x) \<Longrightarrow> (\<Sum>x \<leftarrow> xs. f x) = (\<Sum>x \<leftarrow> xs. g x)"
  by (induction xs) simp_all

lemma weighted_sum_zero:
  fixes f g :: "'a \<Rightarrow> real"
  assumes "(\<Sum>x \<leftarrow> xs. (g x)\<^sup>2) = 0"
  shows "(\<Sum>x \<leftarrow> xs. f x * (g x)\<^sup>2) = 0"
proof -
  have "\<forall>y \<in> set (map (\<lambda>x. (g x)\<^sup>2) xs). y = 0"
    using assms by (subst (asm) sum_list_nonneg_eq_0_iff) auto
  then have "\<And>x. x \<in> set xs \<Longrightarrow> f x * (g x)\<^sup>2 = 0" by simp
  then have "(\<Sum>x \<leftarrow> xs. f x * (g x)\<^sup>2) = (\<Sum>x \<leftarrow> xs. 0)" by (rule sum_list_cong_set)
  then show ?thesis by simp
qed

lemma weight_sum_positive:
  fixes g :: "'a \<Rightarrow> real"
  assumes "x \<in> set xs" "g x \<noteq> 0"
  shows "(\<Sum>x \<leftarrow> xs. (g x)\<^sup>2) \<noteq> 0"
proof
  assume "(\<Sum>x \<leftarrow> xs. (g x)\<^sup>2) = 0"
  then have "\<forall>y \<in> set (map (\<lambda>x. (g x)\<^sup>2) xs). y = 0"
    by (subst (asm) sum_list_nonneg_eq_0_iff) auto
  with assms show False by simp
qed

lemma mcf_unwrap_pixel:
  assumes "i < height phase" "j < width phase"
  shows "mcf_unwrap phase coherence ! i ! j =
           (if (\<Sum>(r, c) \<leftarrow> neighbourhood (height phase) (width phase) i j. (coherence ! r ! c)\<^sup>2) = 0
            then NaN
            else Fin (integrate_gradients phase ! i ! j * (1 - (coherence ! i ! j)\<^sup>2)
                      + (\<Sum>(r, c) \<leftarrow> neighbourhood (height phase) (width phase) i j.
                            integrate_gradients phase ! r ! c * (coherence ! r ! c)\<^sup>2)
                        / (\<Sum>(r, c) \<leftarrow> neighbourhood (height phase) (width phase) i j.
                            (coherence ! r ! c)\<^sup>2)
                        * (coherence ! i ! j)\<^sup>2))"
proof -
  let ?h = "height phase" and ?w = "width phase"
  let ?u = "integrate_gradients phase"
  let ?wt = "weight_of phase coherence"
  let ?N = "neighbourhood ?h ?w i j"
  let ?S = "\<Sum>x \<leftarrow> ?N. ?u ! fst x ! snd x * (coherence ! fst x ! snd x)\<^sup>2"
  let ?W = "\<Sum>x \<leftarrow> ?N. (coherence ! fst x ! snd x)\<^sup>2"
  from assms have pos: "0 < ?h" "0 < ?w" by simp_all
  have shu: "shaped ?h ?w ?u" by (rule integrate_gradients_shaped)
  then have hu: "height ?u = ?h" "width ?u = ?w"
    using pos by (simp_all add: shaped_height shaped_width)
  have wt: "?wt ! r ! c = (coherence ! r ! c)\<^sup>2" if "r < ?h" "c < ?w" for r c
    using that by (simp add: weight_of_def)
  have shw: "shaped ?h ?w ?wt" by (simp add: weight_of_def)
  have inside: "fst x < ?h \<and> snd x < ?w" if "x \<in> set ?N" for x
    using neighbourhood_inside [OF pos, of "fst x" "snd x" i j] that by simp
  have den: "convolve3 ?wt ! i ! j = ?W / 9"
  proof -
    have "convolve3 ?wt ! i ! j = (\<Sum>x \<leftarrow> ?N. ?wt ! fst x ! snd x) / 9"
      using convolve3_nth [OF shw assms] by (simp add: case_prod_unfold)
    also have "(\<Sum>x \<leftarrow> ?N. ?wt ! fst x ! snd x) = ?W"
      by (rule sum_list_cong_set) (simp add: wt inside)
    finally show ?thesis .
  qed
  have num: "convolve3 (tabulate2 ?h ?w (\<lambda>i j. ?u ! i ! j * ?wt ! i ! j)) ! i ! j = ?S / 9"
  proof -
    have "convolve3 (tabulate2 ?h ?w (\<lambda>i j. ?u ! i ! j * ?wt ! i ! j)) ! i ! j
            = (\<Sum>x \<leftarrow> ?N. tabulate2 ?h ?w (\<lambda>i j. ?u ! i ! j * ?wt ! i ! j) ! fst x ! snd x) / 9"
      using convolve3_nth [OF tabulate2_shaped assms] by (simp add: case_prod_unfold)
    also have "(\<Sum>x \<leftarrow> ?N. tabulate2 ?h ?w (\<lambda>i j. ?u ! i ! j * ?wt ! i ! j) ! fst x ! snd x) = ?S"
      by (rule sum_list_cong_set) (simp add: wt inside)
    finally show ?thesis .
  qed
  have smooth: "unwrapped_smooth ?u ?wt ! i ! j = fdiv (?S / 9) (?W / 9)"
    using assms by (simp add: unwrapped_smooth_def Let_def hu num den)
  have out: "mcf_unwrap phase coherence ! i ! j =
               fplus (?u ! i ! j * (1 - (coherence ! i ! j)\<^sup>2))
                     (ftimes (fdiv (?S / 9) (?W / 9)) ((coherence ! i ! j)\<^sup>2))"
    using assms by (simp add: mcf_unwrap_def Let_def smooth wt)
  show ?thesis
  proof (cases "?W = 0")
    case True
    then have "?S = 0" by (rule weighted_sum_zero)
    with True out show ?thesis
      by (simp add: fdiv_def ftimes_def fplus_def case_prod_unfold)
  next
    case False
    with out show ?thesis
      by (simp add: fdiv_def ftimes_def fplus_def case_prod_unfold)
  qed
qed

subsection \<open>Evaluation on the sample rasters\<close>

lemma wrap_id: "- pi < x \<Longrightarrow> x \<le> pi \<Longrightarrow> wrap x = x"
  unfolding wrap_def by (rule cis_Arg_unique) simp_all

lemma wrap_0: "wrap 0 = 0"
  by (rule wrap_id) simp_all

lemma wrap_1: "wrap 1 = 1"
  using pi_ge_two by (intro wrap_id) simp_all


lemma ramp_shape: "height ramp_phase = 1" "width ramp_phase = 2"
  by (simp_all add: ramp_phase_def height_def width_def)


lemma integrate_ramp: "integrate_gradients ramp_phase = [[0, 1]]"
proof -
  have dx: "gradient_x ramp_phase = [[0, 1]]"
    by (simp add: gradient_x_def ramp_shape tabulate2_def eval_nat_numeral wrap_0)
       (simp add: ramp_phase_def wrap_1)
  show ?thesis
    by (simp add: integrate_gradients_def ramp_shape Let_def integrate_rows_def
          adjust_columns_def dx)
       (simp add: tabulate2_def eval_nat_numeral set2_def)
qed


lemma neighbourhood_ramp_0:
  "neighbourhood (Suc 0) 2 0 0 = [(0,0),(0,0),(0,1),(0,0),(0,0),(0,1),(0,0),(0,0),(0,1)]"
  by (simp add: neighbourhood_def reflect_def)

lemma neighbourhood_ramp_1:
  "neighbourhood (Suc 0) 2 0 (Suc 0) = [(0,0),(0,1),(0,1),(0,0),(0,1),(0,1),(0,0),(0,1),(0,1)]"
  by (simp add: neighbourhood_def reflect_def)





subsection \<open>The round trip\<close>




subsection \<open>The coherence blend\<close>

text \<open>
  Claim C2 as stated fails in its direction. On the ramp with full coherence, the pixel
  \<open>[0, 0]\<close> has coherence 1 and integrated value 0, and the output is the smoothed value
  1/3: a high-coherence pixel does not retain the direct integration. On the ramp with
  coherence \<open>[1, 0]\<close>, the pixel \<open>[0, 1]\<close> has coherence 0 and keeps its integrated value 1,
  although its smoothed estimate is 0: a low-coherence pixel is not pulled to the smoothed
  estimate.
\<close>

theorem blend_direction_counterexample:
  "full_coherence ! 0 ! 0 = 1
   \<and> integrate_gradients ramp_phase ! 0 ! 0 = 0
   \<and> mcf_unwrap ramp_phase full_coherence ! 0 ! 0 = Fin (1/3)
   \<and> left_coherence ! 0 ! 1 = 0
   \<and> integrate_gradients ramp_phase ! 0 ! 1 = 1
   \<and> mcf_unwrap ramp_phase left_coherence ! 0 ! 1 = Fin 1"
proof -
  have a: "mcf_unwrap ramp_phase full_coherence ! 0 ! 0 = Fin (1/3)"
    by (subst mcf_unwrap_pixel)
       (simp_all add: ramp_shape neighbourhood_ramp_0 integrate_ramp full_coherence_def)
  have b: "mcf_unwrap ramp_phase left_coherence ! 0 ! 1 = Fin 1"
    by (subst mcf_unwrap_pixel)
       (simp_all add: ramp_shape neighbourhood_ramp_1 integrate_ramp left_coherence_def)
  from a b show ?thesis by (simp add: integrate_ramp full_coherence_def left_coherence_def)
qed

text \<open>
  Claim C2, amended. In step 4 of the fallback unwrapper, for every wrapped-phase and
  coherence raster pair, the final value at a pixel is the blend \<open>u (1 - k\<^sup>2) + s k\<^sup>2\<close> of
  the raw integrated estimate \<open>u\<close> and the 3 x 3 coherence-weighted neighbourhood average
  \<open>s = S / W\<close>, in which the weight given to the smoothed estimate equals the pixel's
  coherence squared: a pixel of coherence 1 takes the smoothed estimate, and a pixel of
  coherence 0 retains the direct integration result when some sample of its neighbourhood
  has nonzero coherence. When all nine have coherence 0, the value is not-a-number.
\<close>

theorem coherence_blend:
  fixes phase coherence :: raster and i j :: nat
  defines "u \<equiv> integrate_gradients phase ! i ! j"
      and "k \<equiv> coherence ! i ! j"
      and "W \<equiv> \<Sum>(r, c) \<leftarrow> neighbourhood (height phase) (width phase) i j. (coherence ! r ! c)\<^sup>2"
      and "S \<equiv> \<Sum>(r, c) \<leftarrow> neighbourhood (height phase) (width phase) i j.
                  integrate_gradients phase ! r ! c * (coherence ! r ! c)\<^sup>2"
  assumes "i < height phase" "j < width phase"
  shows "(W \<noteq> 0 \<longrightarrow> mcf_unwrap phase coherence ! i ! j = Fin (u * (1 - k\<^sup>2) + S / W * k\<^sup>2))
       \<and> (k = 1 \<longrightarrow> mcf_unwrap phase coherence ! i ! j = Fin (S / W))
       \<and> (k = 0 \<and> W \<noteq> 0 \<longrightarrow> mcf_unwrap phase coherence ! i ! j = Fin u)
       \<and> (W = 0 \<longrightarrow> mcf_unwrap phase coherence ! i ! j = NaN)"
proof -
  note px = mcf_unwrap_pixel [OF assms(5,6), of coherence, folded W_def S_def u_def k_def]
  have "W \<noteq> 0" if "k = 1"
  proof -
    have "(\<Sum>x \<leftarrow> neighbourhood (height phase) (width phase) i j.
              (coherence ! fst x ! snd x)\<^sup>2) \<noteq> 0"
      using neighbourhood_centre [OF assms(5,6)] that
      by (intro weight_sum_positive [where x = "(i, j)"]) (simp_all add: k_def)
    then show ?thesis by (simp add: W_def case_prod_unfold)
  qed
  with px show ?thesis by auto
qed

theorem coherence_blend_witness:
  "0 < height ramp_phase \<and> 0 < width ramp_phase \<and> full_coherence ! 0 ! 0 = 1
   \<and> mcf_unwrap ramp_phase full_coherence ! 0 ! 0 = Fin (1/3)"
proof -
  have h: "0 < height ramp_phase" "0 < width ramp_phase" by (simp_all add: ramp_shape)
  from coherence_blend [OF h, of full_coherence] h show ?thesis
    by (simp add: ramp_shape neighbourhood_ramp_0 integrate_ramp full_coherence_def)
qed

section \<open>Properties of the coherence estimator\<close>













end
